theory Spec2Isabelle
  imports Main "HOL-Library.Word"
begin

section \<open>The upload command of dscli (cmd/up.go)\<close>

text \<open>
  The development embeds \<^verbatim>\<open>cmd/up.go\<close>: the retry wrapper
  \<^verbatim>\<open>sendMessageWithRetry\<close>, \<^verbatim>\<open>verifyChunkSize\<close>, the command handler
  \<^verbatim>\<open>up\<close> with its resume inspection, and the two upload paths
  \<^verbatim>\<open>uploadSingleFile\<close> and \<^verbatim>\<open>uploadChunkedFile\<close>.

  The Discord session, the local file system and the progress bar are outside the
  source. They are represented by an explicit \<open>world\<close> that every call threads through:
  the messages stored per channel, the pins, the sleeps, the log and standard output
  lines, and a script of outcomes that decides which remote calls fail.
\<close>

subsection \<open>Data\<close>

type_synonym byte = "8 word"

text \<open>\<^verbatim>\<open>discordgo.MessageAttachment\<close>: the fields the code reads, and the bytes behind its URL.\<close>

record attachment =
  Filename :: string
  Size :: int
  Payload :: "byte list"

record message =
  msg_ID :: nat
  Attachments :: "attachment list"

text \<open>\<^verbatim>\<open>discordgo.MessageSend\<close> as \<^verbatim>\<open>createUploadMessage\<close> builds it: one file, with its name
  and its \<^verbatim>\<open>io.Reader\<close>. The reader is a \<^verbatim>\<open>bytes.Reader\<close>; \<open>File_Reader\<close> holds the bytes it has
  not delivered yet.\<close>

record MessageSend =
  File_Name :: string
  File_Reader :: "byte list"

record channel =
  ch_ID :: nat
  ch_Name :: string
  Topic :: string

datatype progress_event = BarNew int string | BarAdd int

datatype chunk_error = ZeroOrNegative | ExceedsMaximum int int

text \<open>A line written by \<^verbatim>\<open>log.Printf\<close> (to standard error). \<open>UploadAttemptFailed n d e\<close> is
  \<^verbatim>\<open>"Upload attempt %d failed, retrying in %v: %v"\<close> with the attempt number, the wait in
  nanoseconds and the error; \<open>LogLine\<close> carries a line whose text is fully formatted here.\<close>

datatype log_entry = UploadAttemptFailed int int string | LogLine string

datatype error =
    RequiresArgument
  | SessionError string
  | FileMapError string
  | ChannelLimitReached int
  | OpenError string
  | AlreadyExists string
  | DoesNotExist string
  | StatError
  | MaxFileSizeError string
  | SizeMismatch
  | ListError string
  | CannotInferBlockSize
  | InferredBlockTooLarge int int
  | IncompleteLastBlock
  | AtoiError string
  | AlreadyComplete
  | EncodeError string
  | CannotCreate string
  | ReadFileFailed
  | ChunkTooSmall
  | ChunkReadFailed int
  | ChunkValidationFailed int chunk_error
  | FailedAfter int "string option"
  | Panic string

record world =
  script :: "string option list"
  next_id :: nat
  msgs :: "nat \<Rightarrow> message list"
  chans :: "channel list"
  pin_calls :: "(nat \<times> nat) list"
  pinned :: "(nat \<times> nat) list"
  sleeps :: "int list"
  logs :: "log_entry list"
  stdout :: "string list"
  progress :: "progress_event list"
  opened :: "string list"

subsection \<open>Machine integers and decimal strings\<close>

text \<open>Go's \<^verbatim>\<open>int\<close> and \<^verbatim>\<open>int64\<close> are 64-bit two's complement; \<open>wrap64\<close> is the
  value an arithmetic result has after wrapping.\<close>

definition wrap64 :: "int \<Rightarrow> int" where
  "wrap64 x = (x + 2 ^ 63) mod 2 ^ 64 - 2 ^ 63"

definition digit_char :: "nat \<Rightarrow> char" where
  "digit_char d = ''0123456789'' ! d"

fun digits :: "nat \<Rightarrow> string" where
  "digits n = (if n < 10 then [digit_char n] else digits (n div 10) @ [digit_char (n mod 10)])"

declare digits.simps [simp del]

text \<open>\<^verbatim>\<open>strconv.Itoa\<close> and \<^verbatim>\<open>strconv.FormatInt(_, 10)\<close>.\<close>

definition Itoa :: "int \<Rightarrow> string" where
  "Itoa i = (if i < 0 then CHR ''-'' # digits (nat (- i)) else digits (nat i))"

definition FormatInt :: "int \<Rightarrow> string" where
  "FormatInt i = Itoa i"

text \<open>The value of a decimal digit: its position among the ten digit characters.\<close>

fun index_of :: "char \<Rightarrow> string \<Rightarrow> nat \<Rightarrow> nat option" where
  "index_of c [] k = None"
| "index_of c (d # ds) k = (if c = d then Some k else index_of c ds (Suc k))"

definition digit_val :: "char \<Rightarrow> nat option" where
  "digit_val c = index_of c ''0123456789'' 0"

fun parse_digits :: "string \<Rightarrow> nat \<Rightarrow> nat option" where
  "parse_digits [] acc = Some acc"
| "parse_digits (c # cs) acc =
     (case digit_val c of None \<Rightarrow> None | Some d \<Rightarrow> parse_digits cs (10 * acc + d))"

text \<open>\<^verbatim>\<open>strconv.Atoi\<close>: an optional sign, at least one digit, and a range error outside
  the 64-bit integers.\<close>

definition Atoi :: "string \<Rightarrow> error + int" where
  "Atoi s =
     (let neg = (case s of [] \<Rightarrow> False | c # _ \<Rightarrow> c = CHR ''-'');
          body = (case s of [] \<Rightarrow> []
                  | c # cs \<Rightarrow> if c = CHR ''-'' \<or> c = CHR ''+'' then cs else s)
      in if body = [] then Inl (AtoiError s)
         else case parse_digits body 0 of
                None \<Rightarrow> Inl (AtoiError s)
              | Some n \<Rightarrow>
                  (let v = (if neg then - int n else int n)
                   in if v < - (2 ^ 63) \<or> 2 ^ 63 \<le> v then Inl (AtoiError s) else Inr v))"

subsection \<open>The transport\<close>

text \<open>Every remote call takes the next outcome of the script: \<open>None\<close> is success,
  \<open>Some e\<close> is the failure \<open>e\<close>. An exhausted script means success.\<close>

definition api_call :: "world \<Rightarrow> string option \<times> world" where
  "api_call w = (case script w of [] \<Rightarrow> (None, w) | r # rs \<Rightarrow> (r, w\<lparr>script := rs\<rparr>))"

text \<open>\<^verbatim>\<open>session.ChannelMessageSendComplex\<close>: the library copies the reader of the file to
  its end into the body of the request and then posts the body. So every call, failed or
  not, leaves the reader of the message empty, and a call on a message that was sent before
  posts no bytes. The result carries the message after the call.\<close>

definition ChannelMessageSendComplex ::
  "world \<Rightarrow> nat \<Rightarrow> MessageSend \<Rightarrow> (string + message) \<times> world \<times> MessageSend" where
  "ChannelMessageSendComplex w channelID msg =
     (let body = File_Reader msg;
          msg1 = msg\<lparr>File_Reader := []\<rparr>
      in case api_call w of
           (Some e, w1) \<Rightarrow> (Inl e, w1, msg1)
         | (None, w1) \<Rightarrow>
             (let m = \<lparr>msg_ID = next_id w1,
                       Attachments = [\<lparr>Filename = File_Name msg, Size = int (length body),
                                       Payload = body\<rparr>]\<rparr>
              in (Inr m, w1\<lparr>next_id := Suc (next_id w1),
                            msgs := (msgs w1)(channelID := msgs w1 channelID @ [m])\<rparr>, msg1)))"

text \<open>\<^verbatim>\<open>session.ChannelMessagePin\<close>: the call is recorded, and the pin when it succeeds.\<close>

definition ChannelMessagePin :: "world \<Rightarrow> nat \<Rightarrow> nat \<Rightarrow> string option \<times> world" where
  "ChannelMessagePin w channelID messageID =
     (case api_call w of
        (r, w1) \<Rightarrow>
          (let w2 = w1\<lparr>pin_calls := pin_calls w1 @ [(channelID, messageID)]\<rparr>
           in case r of
                Some e \<Rightarrow> (Some e, w2)
              | None \<Rightarrow> (None, w2\<lparr>pinned := pinned w2 @ [(channelID, messageID)]\<rparr>)))"

text \<open>\<^verbatim>\<open>time.Second\<close> in nanoseconds, the unit of \<^verbatim>\<open>time.Duration\<close>.\<close>

definition Second :: int where
  "Second = 1000000000"

definition Sleep :: "world \<Rightarrow> int \<Rightarrow> world" where
  "Sleep w d = w\<lparr>sleeps := sleeps w @ [d]\<rparr>"

definition log_Printf :: "world \<Rightarrow> log_entry \<Rightarrow> world" where
  "log_Printf w line = w\<lparr>logs := logs w @ [line]\<rparr>"

subsection \<open>sendMessageWithRetry\<close>

text \<open>The loop of \<^verbatim>\<open>sendMessageWithRetry\<close> from its counter \<open>i\<close> on; \<open>err\<close> is the
  error of the last attempt. Every attempt sends the same message, whose reader the
  attempts before have read.\<close>

function sendMessageWithRetry_from ::
  "world \<Rightarrow> nat \<Rightarrow> MessageSend \<Rightarrow> int \<Rightarrow> int \<Rightarrow> string option
    \<Rightarrow> (error + message) \<times> world" where
  "sendMessageWithRetry_from w channelID msg maxTries i err =
     (if i < maxTries then
        (case ChannelMessageSendComplex w channelID msg of
           (Inr m, w1, msg1) \<Rightarrow> (Inr m, w1)
         | (Inl e, w1, msg1) \<Rightarrow>
             (let w2 = (if i < maxTries - 1
                        then (let waitTime = wrap64 (Second * wrap64 (i + 1))
                              in Sleep (log_Printf w1 (UploadAttemptFailed (i + 1) waitTime e))
                                   waitTime)
                        else w1)
              in sendMessageWithRetry_from w2 channelID msg1 maxTries (i + 1) (Some e)))
      else (Inl (FailedAfter maxTries err), w))"
  by pat_completeness auto
termination
  by (relation "measure (\<lambda>(w, c, msg, maxTries, i, e). nat (maxTries - i))") auto

declare sendMessageWithRetry_from.simps [simp del]

definition sendMessageWithRetry ::
  "world \<Rightarrow> nat \<Rightarrow> MessageSend \<Rightarrow> int \<Rightarrow> (error + message) \<times> world" where
  "sendMessageWithRetry w channelID msg maxTries =
     sendMessageWithRetry_from w channelID msg maxTries 0 None"

text \<open>\<^verbatim>\<open>createUploadMessage\<close>: a message with one file, read from \<open>data\<close>. Both callers pass
  \<^verbatim>\<open>bytes.NewReader\<close> of a byte slice, a reader that holds all the bytes of the slice.\<close>

definition createUploadMessage :: "string \<Rightarrow> byte list \<Rightarrow> MessageSend" where
  "createUploadMessage name data = \<lparr>File_Name = name, File_Reader = data\<rparr>"

subsection \<open>The local file\<close>

text \<open>An open \<^verbatim>\<open>*os.File\<close>: its bytes, the read position, and the faults of the device:
  \<open>bad_from = Some b\<close> means that no byte from offset \<open>b\<close> on can be read, \<open>stat_fails\<close>
  that \<^verbatim>\<open>Stat\<close> returns an error.\<close>

record os_File =
  contents :: "byte list"
  pos :: nat
  bad_from :: "nat option"
  stat_fails :: bool

datatype read_error = EOF | ErrUnexpectedEOF | ErrIO

text \<open>Reading the bytes \<open>want\<close> that lie at the read position: the bytes obtained, whether
  the device failed, and the file after the read.\<close>

definition read_bytes :: "os_File \<Rightarrow> byte list \<Rightarrow> byte list \<times> bool \<times> os_File" where
  "read_bytes f want =
     (case bad_from f of
        None \<Rightarrow> (want, False, f\<lparr>pos := pos f + length want\<rparr>)
      | Some b \<Rightarrow>
          if b < pos f + length want
          then (take (b - pos f) want, True, f\<lparr>pos := pos f + length (take (b - pos f) want)\<rparr>)
          else (want, False, f\<lparr>pos := pos f + length want\<rparr>))"

text \<open>\<^verbatim>\<open>io.ReadFull(file, buf)\<close> with \<open>len(buf) = c\<close>: the bytes read, the error and the
  file after the read. Fewer than \<open>c\<close> bytes come with \<^verbatim>\<open>io.EOF\<close> when none was read and
  with \<^verbatim>\<open>io.ErrUnexpectedEOF\<close> otherwise.\<close>

definition ReadFull :: "os_File \<Rightarrow> nat \<Rightarrow> byte list \<times> read_error option \<times> os_File" where
  "ReadFull f c =
     (if c = 0 then ([], None, f)
      else case read_bytes f (take c (drop (pos f) (contents f))) of
             (got, True, f1) \<Rightarrow> (got, Some ErrIO, f1)
           | (got, False, f1) \<Rightarrow>
               (got,
                if length got = c then None
                else if got = [] then Some EOF else Some ErrUnexpectedEOF,
                f1))"

text \<open>\<^verbatim>\<open>io.ReadAll(file)\<close>: everything from the read position to the end.\<close>

definition ReadAll :: "os_File \<Rightarrow> byte list \<times> read_error option \<times> os_File" where
  "ReadAll f =
     (case read_bytes f (drop (pos f) (contents f)) of
        (got, True, f1) \<Rightarrow> (got, Some ErrIO, f1)
      | (got, False, f1) \<Rightarrow> (got, None, f1))"

subsection \<open>The progress bar and standard output\<close>

definition bar_DefaultBytes :: "world \<Rightarrow> int \<Rightarrow> string \<Rightarrow> world" where
  "bar_DefaultBytes w maxBytes description =
     w\<lparr>progress := progress w @ [BarNew maxBytes description]\<rparr>"

definition bar_Add :: "world \<Rightarrow> int \<Rightarrow> world" where
  "bar_Add w n = w\<lparr>progress := progress w @ [BarAdd n]\<rparr>"

subsection \<open>verifyChunkSize\<close>

definition verifyChunkSize :: "int \<Rightarrow> int \<Rightarrow> chunk_error option" where
  "verifyChunkSize chunkSize actualSize =
     (if actualSize \<le> 0 then Some ZeroOrNegative
      else if actualSize > chunkSize then Some (ExceedsMaximum actualSize chunkSize)
      else None)"

subsection \<open>uploadSingleFile\<close>

definition uploadSingleFile ::
  "world \<Rightarrow> channel \<Rightarrow> os_File \<Rightarrow> string \<Rightarrow> int \<Rightarrow> bool \<Rightarrow> bool \<Rightarrow> (error + unit) \<times> world" where
  "uploadSingleFile w channel file filename fileSize debug resume =
     (case ReadAll file of
        (data, Some e, file1) \<Rightarrow> (Inl ReadFileFailed, w)
      | (data, None, file1) \<Rightarrow>
          (let w1 = (if \<not> debug then bar_DefaultBytes w fileSize (''Uploading '' @ filename) else w)
           in case sendMessageWithRetry w1 (ch_ID channel) (createUploadMessage ''1'' data) 10 of
                (Inl e, w2) \<Rightarrow> (Inl e, w2)
              | (Inr message, w2) \<Rightarrow>
                  (let w3 = (if \<not> resume
                             then snd (ChannelMessagePin w2 (ch_ID channel) (msg_ID message))
                             else w2);
                       w4 = (if \<not> debug then bar_Add w3 fileSize else w3)
                   in (Inr (), w4))))"

subsection \<open>uploadChunkedFile\<close>

text \<open>The \<^verbatim>\<open>for\<close> loop of \<^verbatim>\<open>uploadChunkedFile\<close>, entered with the block number of the
  last block and the flag \<open>first\<close>. Allocating a buffer of negative length panics.\<close>

function upload_blocks ::
  "nat \<Rightarrow> int \<Rightarrow> int \<Rightarrow> bool \<Rightarrow> world \<Rightarrow> os_File \<Rightarrow> bool \<Rightarrow> int \<Rightarrow> (error + unit) \<times> world" where
  "upload_blocks channelID fileSize chunkSize debug w file first blockNumber0 =
     (let blockNumber = wrap64 (blockNumber0 + 1)
      in if chunkSize < 0 then (Inl (Panic ''makeslice: len out of range''), w)
         else
           (case ReadFull file (nat chunkSize) of
              (buf, err, file1) \<Rightarrow>
                (let n = int (length buf)
                 in if err = Some ErrIO then (Inl (ChunkReadFailed blockNumber), w)
                    else if n = 0 then (Inr (), w)
                    else
                      (case verifyChunkSize chunkSize n of
                         Some e \<Rightarrow> (Inl (ChunkValidationFailed blockNumber e), w)
                       | None \<Rightarrow>
                           (let w1 = (if \<not> debug then bar_Add w n
                                      else log_Printf w
                                             (LogLine (''Chunk '' @ Itoa blockNumber @ '': ''
                                                @ Itoa (int (pos file1)) @ ''/'' @ Itoa fileSize
                                                @ '' bytes'')))
                            in case sendMessageWithRetry w1 channelID
                                      (createUploadMessage (Itoa blockNumber) buf) 10 of
                                 (Inl e, w2) \<Rightarrow> (Inl e, w2)
                               | (Inr message, w2) \<Rightarrow>
                                   (let w3 = (if first
                                              then snd (ChannelMessagePin w2 channelID
                                                          (msg_ID message))
                                              else w2)
                                    in if n < chunkSize then (Inr (), w3)
                                       else upload_blocks channelID fileSize chunkSize debug w3
                                              file1 False blockNumber))))))"
  by pat_completeness auto
termination
  apply (relation "measure (\<lambda>(c, s, k, d, w, f, fi, b). length (contents f) - pos f)")
   apply simp
  apply (auto simp: ReadFull_def read_bytes_def split: if_splits option.splits prod.splits)
  done

declare upload_blocks.simps [simp del]

definition uploadChunkedFile ::
  "world \<Rightarrow> channel \<Rightarrow> os_File \<Rightarrow> string \<Rightarrow> int \<Rightarrow> int \<Rightarrow> bool \<Rightarrow> bool \<Rightarrow> int
    \<Rightarrow> (error + unit) \<times> world" where
  "uploadChunkedFile w channel file filename fileSize maxChunkSize debug resume startBlock =
     (let chunkSize = wrap64 (maxChunkSize - 50)
      in if chunkSize \<le> 0 then (Inl ChunkTooSmall, w)
         else
           (let w1 = (if \<not> debug
                      then bar_Add (bar_DefaultBytes w fileSize (''Uploading '' @ filename))
                             (wrap64 (startBlock * chunkSize))
                      else w)
            in upload_blocks (ch_ID channel) fileSize chunkSize debug w1 file (\<not> resume) startBlock))"

subsection \<open>The command handler\<close>

text \<open>What \<^verbatim>\<open>up\<close> obtains from the packages outside the source: the error of
  \<^verbatim>\<open>common.GetDiscordSession\<close>, the guild, the result of \<^verbatim>\<open>common.ParseFileMap\<close> (one
  entry per remote file name, as in the Go map), \<^verbatim>\<open>common.MaxDiscordChannels\<close>, the result
  of \<^verbatim>\<open>common.GetMaxFileSizeUpload\<close>, \<^verbatim>\<open>common.EncodeFilename\<close>, and the local files.\<close>

record env =
  session_error :: "string option"
  guild_ID :: nat
  fileMap_result :: "string + (string \<times> channel) list"
  MaxDiscordChannels :: int
  max_upload_result :: "string + int"
  EncodeFilename :: "string \<Rightarrow> string + string"
  local_files :: "string \<Rightarrow> os_File option"

text \<open>\<^verbatim>\<open>filepath.Split\<close>: the path is cut after its last separator.\<close>

definition filepath_Split :: "string \<Rightarrow> string \<times> string" where
  "filepath_Split path =
     (let base = rev (takeWhile (\<lambda>c. c \<noteq> CHR ''/'') (rev path))
      in (take (length path - length base) path, base))"

text \<open>\<^verbatim>\<open>session.ChannelMessages(channelID, limit, "", afterID, "")\<close>. The transport returns
  pages newest first; with \<open>afterID\<close> the page holds the messages that follow that id
  directly, so \<open>limit = 1\<close> after id 0 is the oldest message (spec, section 4.2, steps 2
  and 4).\<close>

definition ChannelMessages ::
  "world \<Rightarrow> nat \<Rightarrow> nat \<Rightarrow> nat option \<Rightarrow> (string + message list) \<times> world" where
  "ChannelMessages w channelID limit afterID =
     (case api_call w of
        (Some e, w1) \<Rightarrow> (Inl e, w1)
      | (None, w1) \<Rightarrow>
          (Inr (case afterID of
                  Some a \<Rightarrow> rev (take limit (filter (\<lambda>m. a < msg_ID m) (msgs w1 channelID)))
                | None \<Rightarrow> take limit (rev (msgs w1 channelID))),
           w1))"

definition GuildChannelCreate :: "world \<Rightarrow> nat \<Rightarrow> string \<Rightarrow> (string + channel) \<times> world" where
  "GuildChannelCreate w guildID name =
     (case api_call w of
        (Some e, w1) \<Rightarrow> (Inl e, w1)
      | (None, w1) \<Rightarrow>
          (let c = \<lparr>ch_ID = next_id w1, ch_Name = name, Topic = []\<rparr>
           in (Inr c, w1\<lparr>next_id := Suc (next_id w1), chans := chans w1 @ [c]\<rparr>)))"

definition ChannelEdit :: "world \<Rightarrow> nat \<Rightarrow> string \<Rightarrow> string option \<times> world" where
  "ChannelEdit w channelID topic =
     (case api_call w of
        (Some e, w1) \<Rightarrow> (Some e, w1)
      | (None, w1) \<Rightarrow>
          (None, w1\<lparr>chans := map (\<lambda>c. if ch_ID c = channelID then c\<lparr>Topic := topic\<rparr> else c)
                                (chans w1)\<rparr>))"

text \<open>The \<^verbatim>\<open>for _, msg := range msgs\<close> loop of the resume branch: the block number of the
  first listed message that has an attachment, or the initial block number when none has.\<close>

fun last_block :: "message list \<Rightarrow> int \<Rightarrow> int \<Rightarrow> error + int" where
  "last_block [] maxDiscordFileSize blockNumber = Inr blockNumber"
| "last_block (msg # rest) maxDiscordFileSize blockNumber =
     (case Attachments msg of
        [] \<Rightarrow> last_block rest maxDiscordFileSize blockNumber
      | a # _ \<Rightarrow>
          if Size a \<noteq> maxDiscordFileSize then Inl IncompleteLastBlock
          else Atoi (Filename a))"

text \<open>The end of \<^verbatim>\<open>up\<close>, which both branches reach: the choice between the two paths.\<close>

definition choose_upload ::
  "world \<Rightarrow> channel \<Rightarrow> os_File \<Rightarrow> string \<Rightarrow> int \<Rightarrow> int \<Rightarrow> bool \<Rightarrow> bool \<Rightarrow> int
    \<Rightarrow> (error + unit) \<times> world" where
  "choose_upload w channel localFile localBase fileSize maxDiscordFileSize debug resume blockNumber =
     (if fileSize \<le> maxDiscordFileSize
      then uploadSingleFile w channel localFile localBase fileSize debug resume
      else uploadChunkedFile w channel localFile localBase fileSize maxDiscordFileSize
             debug resume blockNumber)"

text \<open>The resume branch of \<^verbatim>\<open>up\<close>, from the first listing of messages on.\<close>

definition resume_upload ::
  "world \<Rightarrow> channel \<Rightarrow> os_File \<Rightarrow> string \<Rightarrow> int \<Rightarrow> int \<Rightarrow> bool \<Rightarrow> (error + unit) \<times> world" where
  "resume_upload w channel localFile localBase fileSize maxDiscordFileSize debug =
     (case ChannelMessages w (ch_ID channel) 1 (Some 0) of
        (Inl e, w1) \<Rightarrow> (Inl (ListError e), w1)
      | (Inr oldest, w1) \<Rightarrow>
          (case oldest of
             [] \<Rightarrow> (Inl CannotInferBlockSize, w1)
           | m # _ \<Rightarrow>
               (case Attachments m of
                  [] \<Rightarrow> (Inl CannotInferBlockSize, w1)
                | a # _ \<Rightarrow>
                    if Size a > maxDiscordFileSize
                    then (Inl (InferredBlockTooLarge (Size a) maxDiscordFileSize), w1)
                    else
                      (case ChannelMessages w1 (ch_ID channel) 2 None of
                         (Inl e, w2) \<Rightarrow> (Inl (ListError e), w2)
                       | (Inr newest, w2) \<Rightarrow>
                           (case last_block newest (Size a) 0 of
                              Inl e \<Rightarrow> (Inl e, w2)
                            | Inr blockNumber \<Rightarrow>
                                if wrap64 (blockNumber * Size a) = fileSize
                                then (Inl AlreadyComplete, w2)
                                else choose_upload w2 channel localFile localBase fileSize
                                       (Size a) debug True blockNumber)))))"

text \<open>The fresh branch of \<^verbatim>\<open>up\<close>: the channel is created and its topic set, the error of
  the edit being ignored.\<close>

definition fresh_upload ::
  "env \<Rightarrow> world \<Rightarrow> string \<Rightarrow> string \<Rightarrow> os_File \<Rightarrow> string \<Rightarrow> int \<Rightarrow> int \<Rightarrow> bool
    \<Rightarrow> (error + unit) \<times> world" where
  "fresh_upload env w remote sizeStr localFile localBase fileSize maxDiscordFileSize debug =
     (case EncodeFilename env remote of
        Inl e \<Rightarrow> (Inl (EncodeError e), w)
      | Inr encodedRemote \<Rightarrow>
          (case GuildChannelCreate w (guild_ID env) encodedRemote of
             (Inl e, w1) \<Rightarrow> (Inl (CannotCreate e), w1)
           | (Inr channel, w1) \<Rightarrow>
               choose_upload (snd (ChannelEdit w1 (ch_ID channel) sizeStr)) channel localFile
                 localBase fileSize maxDiscordFileSize debug False 0))"

definition up :: "env \<Rightarrow> bool \<Rightarrow> bool \<Rightarrow> string list \<Rightarrow> world \<Rightarrow> (error + unit) \<times> world" where
  "up env upDebug upResume args w =
     (case session_error env of
        Some e \<Rightarrow> (Inl (SessionError e), w)
      | None \<Rightarrow>
     (case fileMap_result env of
        Inl e \<Rightarrow> (Inl (FileMapError e), w)
      | Inr fileMap \<Rightarrow>
     if \<not> upResume \<and> MaxDiscordChannels env \<le> int (length fileMap)
     then (Inl (ChannelLimitReached (MaxDiscordChannels env)), w)
     else
     (case args of
        [] \<Rightarrow> (Inl (Panic ''index out of range''), w)
      | local # others \<Rightarrow>
     (case local_files env local of
        None \<Rightarrow> (Inl (OpenError local), w)
      | Some f \<Rightarrow>
     (let localFile = f\<lparr>pos := 0\<rparr>;
          w0 = w\<lparr>opened := opened w @ [local]\<rparr>;
          localBase = snd (filepath_Split local);
          remote = (case others of [] \<Rightarrow> localBase | r # _ \<Rightarrow> r);
          found = map_of fileMap remote
      in if found \<noteq> None \<and> \<not> upResume then (Inl (AlreadyExists remote), w0)
         else if found = None \<and> upResume then (Inl (DoesNotExist remote), w0)
         else if stat_fails localFile then (Inl StatError, w0)
         else
     (let fileSize = int (length (contents localFile));
          sizeStr = FormatInt fileSize
      in case max_upload_result env of
           Inl e \<Rightarrow> (Inl (MaxFileSizeError e), w0)
         | Inr maxDiscordFileSize \<Rightarrow>
             if upResume
             then (case found of
                     None \<Rightarrow> (Inl (Panic ''nil pointer dereference''), w0)
                   | Some channel \<Rightarrow>
                       if Topic channel \<noteq> sizeStr then (Inl SizeMismatch, w0)
                       else resume_upload w0 channel localFile localBase fileSize
                              maxDiscordFileSize upDebug)
             else fresh_upload env w0 remote sizeStr localFile localBase fileSize
                    maxDiscordFileSize upDebug))))))"

text \<open>The \<^verbatim>\<open>Args\<close> validator of \<^verbatim>\<open>upCmd\<close> followed by its \<^verbatim>\<open>RunE\<close>.\<close>

definition upCmd :: "env \<Rightarrow> bool \<Rightarrow> bool \<Rightarrow> string list \<Rightarrow> world \<Rightarrow> (error + unit) \<times> world" where
  "upCmd env upDebug upResume args w =
     (if length args < 1 then (Inl RequiresArgument, w) else up env upDebug upResume args w)"

subsection \<open>Concrete worlds\<close>

text \<open>A world in which nothing has happened yet and whose remote calls fail as \<open>outcomes\<close> says.\<close>

definition fresh_world :: "string option list \<Rightarrow> world" where
  "fresh_world outcomes =
     \<lparr>script = outcomes, next_id = 100, msgs = (\<lambda>_. []), chans = [], pin_calls = [],
      pinned = [], sleeps = [], logs = [], stdout = [], progress = [], opened = []\<rparr>"

text \<open>A local file of \<open>a\<close> bytes 1 followed by \<open>b\<close> bytes 2.\<close>

definition two_part_file :: "nat \<Rightarrow> nat \<Rightarrow> os_File" where
  "two_part_file a b =
     \<lparr>contents = replicate a 1 @ replicate b 2, pos = 0, bad_from = None, stat_fails = False\<rparr>"

text \<open>An environment with a working session, the given file map, channel limit and
  attachment limit, and one local file, \<^verbatim>\<open>f.bin\<close>.\<close>

definition sample_env :: "(string \<times> channel) list \<Rightarrow> int \<Rightarrow> int \<Rightarrow> os_File \<Rightarrow> env" where
  "sample_env fileMap limit maxSize f =
     \<lparr>session_error = None, guild_ID = 1, fileMap_result = Inr fileMap,
      MaxDiscordChannels = limit, max_upload_result = Inr maxSize,
      EncodeFilename = (\<lambda>s. Inr s),
      local_files = (\<lambda>p. if p = ''f.bin'' then Some f else None)\<rparr>"

text \<open>The channel 100 that stores \<^verbatim>\<open>f.bin\<close>, with the given topic, a message carrying one
  block, and a world whose channel 100 holds the given messages.\<close>

definition sample_channel :: "string \<Rightarrow> channel" where
  "sample_channel topic = \<lparr>ch_ID = 100, ch_Name = ''f.bin'', Topic = topic\<rparr>"

definition block_message :: "nat \<Rightarrow> string \<Rightarrow> byte list \<Rightarrow> message" where
  "block_message i name payload =
     \<lparr>msg_ID = i,
      Attachments = [\<lparr>Filename = name, Size = int (length payload), Payload = payload\<rparr>]\<rparr>"

definition remote_world :: "message list \<Rightarrow> world" where
  "remote_world ms =
     \<lparr>script = [], next_id = 200, msgs = (\<lambda>c. if c = 100 then ms else []), chans = [],
      pin_calls = [], pinned = [], sleeps = [], logs = [], stdout = [], progress = [],
      opened = []\<rparr>"

text \<open>A container that already holds the whole file: two blocks of 100 bytes for a local
  file of 200 bytes.\<close>

definition complete_env :: env where
  "complete_env = sample_env [(''f.bin'', sample_channel ''200'')] 500 150 (two_part_file 100 100)"

definition complete_world :: world where
  "complete_world = remote_world [block_message 101 ''1'' (replicate 100 1),
                                  block_message 102 ''2'' (replicate 100 2)]"

text \<open>Four concrete runs. A fresh chunked upload of a file of 151 bytes with the attachment
  limit 150, without and with debug mode; the resume of that upload after it was cut when
  only block 1 (100 bytes) had been stored; and a fresh upload of a file of 51 bytes with the
  attachment limit 50.\<close>

definition fresh_run :: "(error + unit) \<times> world" where
  "fresh_run = uploadChunkedFile (remote_world []) (sample_channel ''151'') (two_part_file 100 51)
                 ''f.bin'' 151 150 False False 0"

definition debug_run :: "(error + unit) \<times> world" where
  "debug_run = uploadChunkedFile (remote_world []) (sample_channel ''151'') (two_part_file 100 51)
                 ''f.bin'' 151 150 True False 0"

definition interrupted_world :: world where
  "interrupted_world = remote_world [block_message 101 ''1'' (replicate 100 1)]"

definition resumed_run :: "(error + unit) \<times> world" where
  "resumed_run = up (sample_env [(''f.bin'', sample_channel ''151'')] 500 150 (two_part_file 100 51))
                   False True [''f.bin''] interrupted_world"

definition tiny_limit_run :: "(error + unit) \<times> world" where
  "tiny_limit_run = up (sample_env [] 500 50 (two_part_file 50 1)) False False [''f.bin'']
                      (remote_world [])"

text \<open>A fresh chunked upload of a file of 7 bytes in blocks of 3 bytes, in which the first
  attempt to send block 1 fails and every other remote call succeeds.\<close>

definition retried_run :: "(error + unit) \<times> world" where
  "retried_run = uploadChunkedFile (fresh_world [Some ''timeout'']) (sample_channel ''7'')
                   (two_part_file 4 3) ''f.bin'' 7 53 False False 0"

text \<open>A fresh single-shot upload of a file of 150 bytes, for the attachment limit 150.\<close>

definition single_run :: "(error + unit) \<times> world" where
  "single_run = uploadSingleFile (remote_world []) (sample_channel ''150'') (two_part_file 100 50)
                  ''f.bin'' 150 False False"

section \<open>Properties\<close>

subsection \<open>The retry wrapper\<close>

lemma wrap64_id: "- (2 ^ 63) \<le> x \<Longrightarrow> x < 2 ^ 63 \<Longrightarrow> wrap64 x = x"
  by (simp add: wrap64_def)

lemma waitTime_exact:
  "0 \<le> i \<Longrightarrow> i < 9223372036 \<Longrightarrow> wrap64 (Second * wrap64 (i + 1)) = Second * (i + 1)"
  by (simp add: wrap64_id Second_def)

lemma createUploadMessage_sel [simp]:
  "File_Name (createUploadMessage nm p) = nm" "File_Reader (createUploadMessage nm p) = p"
  by (simp_all add: createUploadMessage_def)

lemma send_fail:
  "script w = Some e # rs \<Longrightarrow>
     ChannelMessageSendComplex w c msg = (Inl e, w\<lparr>script := rs\<rparr>, msg\<lparr>File_Reader := []\<rparr>)"
  by (simp add: ChannelMessageSendComplex_def api_call_def Let_def)

lemma send_ok:
  "script w = None # rs \<Longrightarrow>
     ChannelMessageSendComplex w c msg =
       (Inr \<lparr>msg_ID = next_id w, Attachments = [\<lparr>Filename = File_Name msg, Size = int (length (File_Reader msg)), Payload = File_Reader msg\<rparr>]\<rparr>,
        w\<lparr>script := rs, next_id := Suc (next_id w),
          msgs := (msgs w)(c := msgs w c @ [\<lparr>msg_ID = next_id w, Attachments = [\<lparr>Filename = File_Name msg, Size = int (length (File_Reader msg)), Payload = File_Reader msg\<rparr>]\<rparr>])\<rparr>,
        msg\<lparr>File_Reader := []\<rparr>)"
  by (simp add: ChannelMessageSendComplex_def api_call_def Let_def)

lemma waits_Cons:
  "map (\<lambda>j. Second * (i + 1 + int j)) [0..<Suc k]
        = (Second * (i + 1)) # map (\<lambda>j. Second * (i + 1 + 1 + int j)) [0..<k]"
  by (simp add: upt_conv_Cons map_Suc_upt [symmetric] algebra_simps del: upt_Suc)

lemma retry_done:
  "maxTries \<le> i \<Longrightarrow>
     sendMessageWithRetry_from w c msg maxTries i err = (Inl (FailedAfter maxTries err), w)"
  by (subst sendMessageWithRetry_from.simps) simp

text \<open>Failures \<open>es\<close> and then a success: the message stored holds what the reader still had,
  which is everything when \<open>es\<close> is empty and nothing otherwise.\<close>

lemma retry_succeeds_after:
  assumes "0 \<le> i" "i + int (length es) < maxTries" "maxTries \<le> 9223372036"
    and "script w = map Some es @ None # rest"
  shows "(let R = sendMessageWithRetry_from w c msg maxTries i err;
              body = (if es = [] then File_Reader msg else []);
              m = \<lparr>msg_ID = next_id w,
                   Attachments = [\<lparr>Filename = File_Name msg, Size = int (length body),
                                   Payload = body\<rparr>]\<rparr>
          in fst R = Inr m
           \<and> script (snd R) = rest
           \<and> sleeps (snd R) = sleeps w @ map (\<lambda>j. Second * (i + 1 + int j)) [0..<length es]
           \<and> msgs (snd R) = (msgs w)(c := msgs w c @ [m])
           \<and> pin_calls (snd R) = pin_calls w)"
  using assms
proof (induction es arbitrary: w i err msg)
  case Nil
  then show ?case
    by (subst sendMessageWithRetry_from.simps) (simp add: send_ok)
next
  case (Cons e es)
  let ?w2 = "Sleep (log_Printf (w\<lparr>script := map Some es @ None # rest\<rparr>)
                (UploadAttemptFailed (i + 1) (Second * (i + 1)) e)) (Second * (i + 1))"
  let ?msg1 = "msg\<lparr>File_Reader := []\<rparr>"
  have step: "sendMessageWithRetry_from w c msg maxTries i err =
          sendMessageWithRetry_from ?w2 c ?msg1 maxTries (i + 1) (Some e)"
    using Cons.prems
    by (subst sendMessageWithRetry_from.simps) (simp add: send_fail Let_def waitTime_exact)
  have scr: "script ?w2 = map Some es @ None # rest"
    by (simp add: Sleep_def log_Printf_def)
  have i1: "0 \<le> i + 1" "i + 1 + int (length es) < maxTries"
    using Cons.prems by simp_all
  have w2: "sleeps ?w2 = sleeps w @ [Second * (i + 1)]" "msgs ?w2 = msgs w"
    "next_id ?w2 = next_id w" "pin_calls ?w2 = pin_calls w"
    by (simp_all add: Sleep_def log_Printf_def)
  have fr: "File_Reader ?msg1 = []" "File_Name ?msg1 = File_Name msg" by simp_all
  have ih: "(let R = sendMessageWithRetry_from ?w2 c ?msg1 maxTries (i + 1) (Some e);
              body = (if e # es = [] then File_Reader msg else []);
              m = \<lparr>msg_ID = next_id w,
                   Attachments = [\<lparr>Filename = File_Name msg, Size = int (length body),
                                   Payload = body\<rparr>]\<rparr>
          in fst R = Inr m
           \<and> script (snd R) = rest
           \<and> sleeps (snd R) = sleeps w @ map (\<lambda>j. Second * (i + 1 + int j)) [0..<length (e # es)]
           \<and> msgs (snd R) = (msgs w)(c := msgs w c @ [m])
           \<and> pin_calls (snd R) = pin_calls w)"
    using Cons.IH [where i = "i + 1" and w = ?w2 and err = "Some e" and msg = ?msg1,
        OF i1 Cons.prems(3) scr, unfolded w2 fr if_cancel]
    by (simp add: Let_def waits_Cons fun_upd_def del: upt_Suc)
  show ?case
    unfolding step by (rule ih)
qed

lemma retry_exhausted:
  assumes "0 \<le> i" "i + int (length es) = maxTries" "maxTries \<le> 9223372036"
    and "script w = map Some es @ rest"
  shows "(let R = sendMessageWithRetry_from w c msg maxTries i err
          in fst R = Inl (FailedAfter maxTries (if es = [] then err else Some (last es)))
           \<and> script (snd R) = rest
           \<and> sleeps (snd R) = sleeps w @ map (\<lambda>j. Second * (i + 1 + int j)) [0..<length es - 1]
           \<and> msgs (snd R) = msgs w
           \<and> pin_calls (snd R) = pin_calls w)"
  using assms
proof (induction es arbitrary: w i err msg)
  case Nil
  then show ?case
    by (subst sendMessageWithRetry_from.simps) simp
next
  case (Cons e es)
  show ?case
  proof (cases "es = []")
    case True
    with Cons.prems have i: "i = maxTries - 1" by simp
    show ?thesis using Cons.prems True i
      by (subst sendMessageWithRetry_from.simps) (simp add: send_fail Let_def retry_done)
  next
    case False
    let ?w2 = "Sleep (log_Printf (w\<lparr>script := map Some es @ rest\<rparr>)
                (UploadAttemptFailed (i + 1) (Second * (i + 1)) e)) (Second * (i + 1))"
    let ?msg1 = "msg\<lparr>File_Reader := []\<rparr>"
    from False have len: "0 < int (length es)" by simp
    have "int (length (e # es)) = 1 + int (length es)" by simp
    with Cons.prems(2) len have lt: "i < maxTries - 1" "i < maxTries"
      by linarith+
    have step: "sendMessageWithRetry_from w c msg maxTries i err =
          sendMessageWithRetry_from ?w2 c ?msg1 maxTries (i + 1) (Some e)"
      using Cons.prems(1,3,4) lt
      by (subst sendMessageWithRetry_from.simps) (simp add: send_fail Let_def waitTime_exact)
    have scr: "script ?w2 = map Some es @ rest"
      by (simp add: Sleep_def log_Printf_def)
    have i1: "0 \<le> i + 1" "i + 1 + int (length es) = maxTries"
      using Cons.prems by simp_all
    have w2: "sleeps ?w2 = sleeps w @ [Second * (i + 1)]" "msgs ?w2 = msgs w"
      "next_id ?w2 = next_id w" "pin_calls ?w2 = pin_calls w"
      by (simp_all add: Sleep_def log_Printf_def)
    from False obtain k where k: "length es = Suc k" by (cases es) simp_all
    have ih: "(let R = sendMessageWithRetry_from ?w2 c ?msg1 maxTries (i + 1) (Some e)
          in fst R = Inl (FailedAfter maxTries (if e # es = [] then err else Some (last (e # es))))
           \<and> script (snd R) = rest
           \<and> sleeps (snd R) = sleeps w @ map (\<lambda>j. Second * (i + 1 + int j)) [0..<length (e # es) - 1]
           \<and> msgs (snd R) = msgs w
           \<and> pin_calls (snd R) = pin_calls w)"
      using Cons.IH [where i = "i + 1" and w = ?w2 and err = "Some e" and msg = ?msg1,
          OF i1 Cons.prems(3) scr] False
      unfolding w2 by (simp add: Let_def k waits_Cons del: upt_Suc)
    show ?thesis
      unfolding step by (rule ih)
  qed
qed

lemma send_cases:
  "(\<exists>e. ChannelMessageSendComplex w c msg
          = (Inl e, w\<lparr>script := tl (script w)\<rparr>, msg\<lparr>File_Reader := []\<rparr>))
   \<or> ChannelMessageSendComplex w c msg =
       (Inr \<lparr>msg_ID = next_id w, Attachments = [\<lparr>Filename = File_Name msg, Size = int (length (File_Reader msg)), Payload = File_Reader msg\<rparr>]\<rparr>,
        w\<lparr>script := tl (script w), next_id := Suc (next_id w),
          msgs := (msgs w)(c := msgs w c @ [\<lparr>msg_ID = next_id w, Attachments = [\<lparr>Filename = File_Name msg, Size = int (length (File_Reader msg)), Payload = File_Reader msg\<rparr>]\<rparr>])\<rparr>,
        msg\<lparr>File_Reader := []\<rparr>)"
  by (cases "script w") (auto simp: ChannelMessageSendComplex_def api_call_def Let_def split: option.splits)

text \<open>What one wrapped send does to the world, whatever the outcomes are: at most one
  message is stored, with one attachment that has the name of the file and holds either
  what the reader had or nothing.\<close>

lemma retry_effect:
  "(let R = sendMessageWithRetry_from w c msg maxTries i err
    in pin_calls (snd R) = pin_calls w \<and> pinned (snd R) = pinned w
     \<and> stdout (snd R) = stdout w \<and> progress (snd R) = progress w
     \<and> chans (snd R) = chans w \<and> opened (snd R) = opened w
     \<and> (case fst R of
           Inl e \<Rightarrow> msgs (snd R) = msgs w
         | Inr m \<Rightarrow> (Attachments m = [\<lparr>Filename = File_Name msg,
                                        Size = int (length (File_Reader msg)),
                                        Payload = File_Reader msg\<rparr>]
                       \<or> Attachments m = [\<lparr>Filename = File_Name msg, Size = 0, Payload = []\<rparr>])
                    \<and> msgs (snd R) = (msgs w)(c := msgs w c @ [m])))"
proof (induction "nat (maxTries - i)" arbitrary: w i err msg rule: less_induct)
  case less
  show ?case
  proof (cases "i < maxTries")
    case False
    then show ?thesis
      by (subst sendMessageWithRetry_from.simps) (simp add: Let_def)
  next
    case True
    from send_cases [of w c msg] show ?thesis
    proof
      assume "\<exists>e. ChannelMessageSendComplex w c msg
          = (Inl e, w\<lparr>script := tl (script w)\<rparr>, msg\<lparr>File_Reader := []\<rparr>)"
      then obtain e where e: "ChannelMessageSendComplex w c msg
          = (Inl e, w\<lparr>script := tl (script w)\<rparr>, msg\<lparr>File_Reader := []\<rparr>)"
        by blast
      let ?w1 = "w\<lparr>script := tl (script w)\<rparr>"
      let ?msg1 = "msg\<lparr>File_Reader := []\<rparr>"
      let ?w2 = "(if i < maxTries - 1
                        then (let waitTime = wrap64 (Second * wrap64 (i + 1))
                              in Sleep (log_Printf ?w1 (UploadAttemptFailed (i + 1) waitTime e))
                                   waitTime)
                        else ?w1)"
      have step: "sendMessageWithRetry_from w c msg maxTries i err
          = sendMessageWithRetry_from ?w2 c ?msg1 maxTries (i + 1) (Some e)"
        using True e by (subst sendMessageWithRetry_from.simps) (simp add: Let_def)
      have same: "pin_calls ?w2 = pin_calls w" "pinned ?w2 = pinned w" "stdout ?w2 = stdout w"
        "progress ?w2 = progress w" "chans ?w2 = chans w" "opened ?w2 = opened w" "msgs ?w2 = msgs w"
        by (simp_all add: Sleep_def log_Printf_def Let_def)
      have lt: "nat (maxTries - (i + 1)) < nat (maxTries - i)" using True by simp
      note ih = less.hyps [OF lt, where w = ?w2 and err = "Some e" and msg = ?msg1,
          unfolded same]
      show ?thesis unfolding step using ih
        by (auto simp: Let_def split: sum.splits)
    next
      assume ok: "ChannelMessageSendComplex w c msg =
       (Inr \<lparr>msg_ID = next_id w, Attachments = [\<lparr>Filename = File_Name msg, Size = int (length (File_Reader msg)), Payload = File_Reader msg\<rparr>]\<rparr>,
        w\<lparr>script := tl (script w), next_id := Suc (next_id w),
          msgs := (msgs w)(c := msgs w c @ [\<lparr>msg_ID = next_id w, Attachments = [\<lparr>Filename = File_Name msg, Size = int (length (File_Reader msg)), Payload = File_Reader msg\<rparr>]\<rparr>])\<rparr>,
        msg\<lparr>File_Reader := []\<rparr>)"
      show ?thesis using True ok
        by (subst sendMessageWithRetry_from.simps) (simp add: Let_def)
    qed
  qed
qed

lemma waits_from_one:
  "map (\<lambda>j. Second * (0 + 1 + int j)) [0..<n] = map (\<lambda>j. Second * int j) [1..<Suc n]"
proof -
  have "[1..<Suc n] = map Suc [0..<n]"
    by (simp add: map_Suc_upt del: upt_Suc)
  then show ?thesis
    by (simp add: algebra_simps del: upt_Suc)
qed

lemma sum_waits:
  "sum_list (map (\<lambda>j. Second * int j) [1..<n]) = Second * (\<Sum>j = 1..<n. int j)"
  by (simp add: interv_sum_list_conv_sum_set_nat sum_distrib_left)

text \<open>
  C4. With \<open>maxTries\<close> attempts allowed: when the send fails \<open>k < maxTries\<close> times and then
  succeeds, the wrapper returns the message with no error; when it fails \<open>maxTries\<close> times,
  the wrapper returns the terminal error carrying \<open>maxTries\<close> and the last failure, after
  exactly \<open>maxTries\<close> attempts. Failed attempt \<open>i\<close> (counted from 0) is followed by a sleep of
  \<open>i + 1\<close> seconds, except the last one, so exhaustion sleeps
  \<open>1 + 2 + ... + (maxTries - 1)\<close> seconds in total. The bound on \<open>maxTries\<close> keeps the
  duration, counted in nanoseconds, inside 64 bits; the callers pass 10. The message
  returned is the one stored in the channel; its attachment holds what the reader of the
  message had left at the attempt that succeeded: everything when no attempt failed before,
  nothing otherwise.
\<close>

theorem sendMessageWithRetry_retry_bound:
  assumes "1 \<le> maxTries" and "maxTries \<le> 9223372036"
  shows "(int (length es) < maxTries \<and> script w = map Some es @ None # rest \<longrightarrow>
           (let R = sendMessageWithRetry w c msg maxTries;
                body = (if es = [] then File_Reader msg else []);
                m = \<lparr>msg_ID = next_id w,
                     Attachments = [\<lparr>Filename = File_Name msg, Size = int (length body),
                                     Payload = body\<rparr>]\<rparr>
            in fst R = Inr m
             \<and> script (snd R) = rest
             \<and> sleeps (snd R) = sleeps w @ map (\<lambda>j. Second * int j) [1..<Suc (length es)]
             \<and> msgs (snd R) = (msgs w)(c := msgs w c @ [m])))
       \<and> (int (length fs) = maxTries \<and> script v = map Some fs @ rest' \<longrightarrow>
           (let R = sendMessageWithRetry v c msg maxTries
            in fst R = Inl (FailedAfter maxTries (Some (last fs)))
             \<and> script (snd R) = rest'
             \<and> sleeps (snd R) = sleeps v @ map (\<lambda>j. Second * int j) [1..<nat maxTries]
             \<and> sum_list (map (\<lambda>j. Second * int j) [1..<nat maxTries])
                 = Second * (\<Sum>j = 1..<nat maxTries. int j)
             \<and> msgs (snd R) = msgs v))"
proof (intro conjI impI)
  assume h: "int (length es) < maxTries \<and> script w = map Some es @ None # rest"
  then have "0 + int (length es) < maxTries" by simp
  from retry_succeeds_after [OF _ this assms(2), of w rest c msg None] h
  show "(let R = sendMessageWithRetry w c msg maxTries;
                body = (if es = [] then File_Reader msg else []);
                m = \<lparr>msg_ID = next_id w,
                     Attachments = [\<lparr>Filename = File_Name msg, Size = int (length body),
                                     Payload = body\<rparr>]\<rparr>
            in fst R = Inr m
             \<and> script (snd R) = rest
             \<and> sleeps (snd R) = sleeps w @ map (\<lambda>j. Second * int j) [1..<Suc (length es)]
             \<and> msgs (snd R) = (msgs w)(c := msgs w c @ [m]))"
    unfolding sendMessageWithRetry_def waits_from_one by (simp add: Let_def)
next
  assume h: "int (length fs) = maxTries \<and> script v = map Some fs @ rest'"
  then have len: "0 + int (length fs) = maxTries" by simp
  from h assms(1) have ne: "fs \<noteq> []" by auto
  from len have n: "Suc (length fs - 1) = nat maxTries" using ne by (cases fs) auto
  from retry_exhausted [OF _ len assms(2), of v rest' c msg None] h ne
  show "(let R = sendMessageWithRetry v c msg maxTries
            in fst R = Inl (FailedAfter maxTries (Some (last fs)))
             \<and> script (snd R) = rest'
             \<and> sleeps (snd R) = sleeps v @ map (\<lambda>j. Second * int j) [1..<nat maxTries]
             \<and> sum_list (map (\<lambda>j. Second * int j) [1..<nat maxTries])
                 = Second * (\<Sum>j = 1..<nat maxTries. int j)
             \<and> msgs (snd R) = msgs v)"
    unfolding sendMessageWithRetry_def waits_from_one n sum_waits by (simp add: Let_def)
qed

theorem sendMessageWithRetry_retry_bound_witness:
  "(1::int) \<le> 3 \<and> (3::int) \<le> 9223372036
   \<and> int (length [''a'', ''b'']) < 3
   \<and> script (fresh_world [Some ''a'', Some ''b'', None, Some ''z''])
        = map Some [''a'', ''b''] @ None # [Some ''z'']
   \<and> fst (sendMessageWithRetry (fresh_world [Some ''a'', Some ''b'', None, Some ''z'']) 7 (createUploadMessage ''1'' [1, 2]) 3)
        = Inr \<lparr>msg_ID = 100, Attachments = [\<lparr>Filename = ''1'', Size = 0, Payload = []\<rparr>]\<rparr>
   \<and> sleeps (snd (sendMessageWithRetry (fresh_world [Some ''a'', Some ''b'', None, Some ''z'']) 7 (createUploadMessage ''1'' [1, 2]) 3))
        = [Second, Second * 2]
   \<and> script (snd (sendMessageWithRetry (fresh_world [Some ''a'', Some ''b'', None, Some ''z'']) 7 (createUploadMessage ''1'' [1, 2]) 3))
        = [Some ''z'']
   \<and> int (length [''a'', ''b'', ''c'']) = 3
   \<and> script (fresh_world [Some ''a'', Some ''b'', Some ''c'', Some ''z''])
        = map Some [''a'', ''b'', ''c''] @ [Some ''z'']
   \<and> fst (sendMessageWithRetry (fresh_world [Some ''a'', Some ''b'', Some ''c'', Some ''z'']) 7 (createUploadMessage ''1'' [1, 2]) 3)
        = Inl (FailedAfter 3 (Some ''c''))
   \<and> sleeps (snd (sendMessageWithRetry (fresh_world [Some ''a'', Some ''b'', Some ''c'', Some ''z'']) 7 (createUploadMessage ''1'' [1, 2]) 3))
        = [Second, Second * 2]
   \<and> script (snd (sendMessageWithRetry (fresh_world [Some ''a'', Some ''b'', Some ''c'', Some ''z'']) 7 (createUploadMessage ''1'' [1, 2]) 3))
        = [Some ''z'']
   \<and> msgs (snd (sendMessageWithRetry (fresh_world [Some ''a'', Some ''b'', Some ''c'', Some ''z'']) 7 (createUploadMessage ''1'' [1, 2]) 3)) 7
        = []"
  using sendMessageWithRetry_retry_bound [where maxTries = 3 and es = "[''a'', ''b'']"
      and w = "fresh_world [Some ''a'', Some ''b'', None, Some ''z'']" and rest = "[Some ''z'']"
      and fs = "[''a'', ''b'', ''c'']"
      and v = "fresh_world [Some ''a'', Some ''b'', Some ''c'', Some ''z'']"
      and rest' = "[Some ''z'']" and c = 7 and msg = "createUploadMessage ''1'' [1, 2]"]
  by (simp add: Let_def fresh_world_def upt_conv_Cons)

subsection \<open>The upload loop\<close>

lemma ReadFull_ok:
  assumes "ReadFull f c = (buf, err, f1)" and "err \<noteq> Some ErrIO" and "0 < c"
  shows "buf = take c (drop (pos f) (contents f))"
    and "pos f1 = pos f + length buf" and "contents f1 = contents f"
  using assms
  by (auto simp: ReadFull_def read_bytes_def split: if_splits option.splits)

lemma sendMessageWithRetry_effect:
  "(let R = sendMessageWithRetry w c msg maxTries
    in pin_calls (snd R) = pin_calls w \<and> pinned (snd R) = pinned w
     \<and> stdout (snd R) = stdout w \<and> progress (snd R) = progress w
     \<and> chans (snd R) = chans w \<and> opened (snd R) = opened w
     \<and> (case fst R of
           Inl e \<Rightarrow> msgs (snd R) = msgs w
         | Inr m \<Rightarrow> (Attachments m = [\<lparr>Filename = File_Name msg,
                                        Size = int (length (File_Reader msg)),
                                        Payload = File_Reader msg\<rparr>]
                       \<or> Attachments m = [\<lparr>Filename = File_Name msg, Size = 0, Payload = []\<rparr>])
                    \<and> msgs (snd R) = (msgs w)(c := msgs w c @ [m])))"
  unfolding sendMessageWithRetry_def by (rule retry_effect)

lemma send_Inr:
  assumes "sendMessageWithRetry w c msg maxTries = (Inr m, w2)"
  shows "map Filename (Attachments m) = [File_Name msg]"
    and "msgs w2 = (msgs w)(c := msgs w c @ [m])"
    and "pin_calls w2 = pin_calls w" and "pinned w2 = pinned w" and "stdout w2 = stdout w"
proof -
  note e = sendMessageWithRetry_effect [of w c msg maxTries, unfolded Let_def assms]
  from e show "map Filename (Attachments m) = [File_Name msg]" by auto
  from e show "msgs w2 = (msgs w)(c := msgs w c @ [m])" by simp
  from e show "pin_calls w2 = pin_calls w" "pinned w2 = pinned w" "stdout w2 = stdout w"
    by simp_all
qed

lemma send_Inl:
  assumes "sendMessageWithRetry w c msg maxTries = (Inl e, w2)"
  shows "msgs w2 = msgs w"
    and "pin_calls w2 = pin_calls w" and "pinned w2 = pinned w" and "stdout w2 = stdout w"
  using sendMessageWithRetry_effect [of w c msg maxTries] assms by (simp_all add: Let_def)

lemma pin_effect:
  "msgs (snd (ChannelMessagePin w c m)) = msgs w"
  "pin_calls (snd (ChannelMessagePin w c m)) = pin_calls w @ [(c, m)]"
  "stdout (snd (ChannelMessagePin w c m)) = stdout w"
  by (auto simp: ChannelMessagePin_def api_call_def Let_def split: list.splits option.splits)

lemma note_effect:
  "msgs (bar_Add w n) = msgs w" "pin_calls (bar_Add w n) = pin_calls w"
  "stdout (bar_Add w n) = stdout w"
  "msgs (log_Printf w l) = msgs w" "pin_calls (log_Printf w l) = pin_calls w"
  "stdout (log_Printf w l) = stdout w"
  "msgs (bar_DefaultBytes w t d) = msgs w" "pin_calls (bar_DefaultBytes w t d) = pin_calls w"
  "stdout (bar_DefaultBytes w t d) = stdout w"
  by (simp_all add: bar_Add_def log_Printf_def bar_DefaultBytes_def)

text \<open>One turn of the loop, spelled out for a read that returned bytes.\<close>

lemma upload_blocks_step:
  assumes "0 < B" and rf: "ReadFull f (nat B) = (buf, err, f1)" and "err \<noteq> Some ErrIO"
    and "buf \<noteq> []"
  shows "upload_blocks cid fsz B dbg w f first k =
     (let bn = wrap64 (k + 1);
          w1 = (if \<not> dbg then bar_Add w (int (length buf))
                else log_Printf w (LogLine (''Chunk '' @ Itoa bn @ '': ''
                       @ Itoa (int (pos f1)) @ ''/'' @ Itoa fsz @ '' bytes'')))
      in case sendMessageWithRetry w1 cid (createUploadMessage (Itoa bn) buf) 10 of
           (Inl e, w2) \<Rightarrow> (Inl e, w2)
         | (Inr message, w2) \<Rightarrow>
             (let w3 = (if first then snd (ChannelMessagePin w2 cid (msg_ID message)) else w2)
              in if int (length buf) < B then (Inr (), w3)
                 else upload_blocks cid fsz B dbg w3 f1 False bn))"
proof -
  from ReadFull_ok(1) [OF rf assms(3)] assms(1)
  have "length buf \<le> nat B" by simp
  with assms(1,4) have v: "verifyChunkSize B (int (length buf)) = None"
    by (auto simp: verifyChunkSize_def)
  show ?thesis
    using assms v
    by (subst upload_blocks.simps) (simp add: Let_def)
qed

lemma upload_blocks_stop:
  assumes "0 < B" and rf: "ReadFull f (nat B) = (buf, err, f1)" and "err \<noteq> Some ErrIO"
    and "buf = []"
  shows "upload_blocks cid fsz B dbg w f first k = (Inr (), w)"
  using assms by (subst upload_blocks.simps) (simp add: Let_def)

lemma upload_blocks_ioerr:
  assumes "0 < B" and rf: "ReadFull f (nat B) = (buf, Some ErrIO, f1)"
  shows "upload_blocks cid fsz B dbg w f first k = (Inl (ChunkReadFailed (wrap64 (k + 1))), w)"
  using assms by (subst upload_blocks.simps) (simp add: Let_def)

lemma ceil_div_add:
  fixes a b :: nat
  assumes "0 < b"
  shows "(a + b + b - 1) div b = Suc ((a + b - 1) div b)"
proof -
  from assms have nz: "b \<noteq> 0" by simp
  from assms have e: "a + b + b - 1 = (a + b - 1) + b" by linarith
  show ?thesis
    unfolding e using div_add_self2 [OF nz, of "a + b - 1"] by linarith
qed

lemma ceil_div_short:
  fixes r b :: nat
  assumes "0 < r" and "r < b"
  shows "(r + b - 1) div b = 1"
proof -
  from assms have nz: "b \<noteq> 0" by simp
  from assms have e: "r + b - 1 = (r - 1) + b" by linarith
  from assms have z: "(r - 1) div b = 0" by (intro div_less) linarith
  show ?thesis
    unfolding e using div_add_self2 [OF nz, of "r - 1"] z by linarith
qed

lemma map_upt_Suc_shift:
  "map g [0..<Suc n] = g 0 # map (\<lambda>i. g (Suc i)) [0..<n]"
proof -
  have "[0..<Suc n] = 0 # map Suc [0..<n]"
    by (simp only: map_Suc_upt upt_conv_Cons [of 0 "Suc n"] zero_less_Suc if_True)
  then show ?thesis by (simp only: list.map map_map comp_def)
qed

text \<open>Blocks stored by the loop when it returns without error, whatever the outcomes of
  the remote calls were: one for every chunk of the bytes from the read position on, named
  \<open>k + 1\<close>, \<open>k + 2\<close>, and so on.\<close>

lemma upload_blocks_names:
  assumes "upload_blocks cid fsz B dbg w f first k = (Inr (), w')"
    and "0 < B" and "0 \<le> k" and "k + int (length (contents f) - pos f) < 2 ^ 63"
  shows "map (\<lambda>m. map Filename (Attachments m)) (msgs w' cid) =
           map (\<lambda>m. map Filename (Attachments m)) (msgs w cid) @
           map (\<lambda>i. [Itoa (k + 1 + int i)])
               [0..<(length (contents f) - pos f + nat B - 1) div nat B]"
  using assms
proof (induction "length (contents f) - pos f" arbitrary: w f first k rule: less_induct)
  case less
  let ?r = "length (contents f) - pos f"
  let ?b = "nat B"
  from less.prems(2) have b: "0 < ?b" by simp
  obtain buf err f1 where rf: "ReadFull f ?b = (buf, err, f1)"
    by (cases "ReadFull f ?b") auto
  have noio: "err \<noteq> Some ErrIO"
  proof
    assume "err = Some ErrIO"
    with rf upload_blocks_ioerr [OF less.prems(2), of f buf f1 cid fsz dbg w first k] less.prems(1)
    show False by simp
  qed
  note ok = ReadFull_ok [OF rf noio b]
  show ?case
  proof (cases "buf = []")
    case True
    with ok(1) b have r0: "?r = 0" by (cases "?r") auto
    from upload_blocks_stop [OF less.prems(2) rf noio True, of cid fsz dbg w first k] less.prems(1)
    have "w' = w" by simp
    with r0 b show ?thesis by simp
  next
    case False
    with ok(1) have rpos: "0 < ?r" by (cases "?r") auto
    from rpos less.prems(3,4) have bn: "wrap64 (k + 1) = k + 1"
      by (intro wrap64_id) linarith+
    let ?w1 = "(if \<not> dbg then bar_Add w (int (length buf))
                else log_Printf w (LogLine (''Chunk '' @ Itoa (k + 1) @ '': ''
                       @ Itoa (int (pos f1)) @ ''/'' @ Itoa fsz @ '' bytes'')))"
    have w1: "msgs ?w1 = msgs w" by (simp add: note_effect)
    obtain res w2 where snd: "sendMessageWithRetry ?w1 cid (createUploadMessage (Itoa (k + 1)) buf) 10 = (res, w2)"
      by (cases "sendMessageWithRetry ?w1 cid (createUploadMessage (Itoa (k + 1)) buf) 10") auto
    note step = upload_blocks_step [OF less.prems(2) rf noio False, of cid fsz dbg w first k,
        unfolded bn Let_def snd]
    show ?thesis
    proof (cases res)
      case (Inl e)
      with step less.prems(1) show ?thesis by simp
    next
      case (Inr m)
      note m = send_Inr [OF snd [unfolded Inr]]
      let ?w3 = "(if first then snd (ChannelMessagePin w2 cid (msg_ID m)) else w2)"
      have w3: "msgs ?w3 cid = msgs w cid @ [m]"
        using m(2) w1 by (simp add: pin_effect)
      have att: "map Filename (Attachments m) = [Itoa (k + 1 + int 0)]"
        using m(1) by simp
      have len: "length buf = min ?b ?r" using ok(1) by simp
      show ?thesis
      proof (cases "int (length buf) < B")
        case True
        with step Inr less.prems(1) have "w' = ?w3" by simp
        moreover from True len rpos have "?r < ?b" by linarith
        with rpos have "(?r + ?b - 1) div ?b = 1" by (rule ceil_div_short)
        ultimately show ?thesis using w3 att by simp
      next
        case False
        with step Inr less.prems(1)
        have rec: "upload_blocks cid fsz B dbg ?w3 f1 False (k + 1) = (Inr (), w')" by simp
        from False len have ge: "?b \<le> ?r" and lb: "length buf = ?b" by linarith+
        have p1: "pos f1 = pos f + ?b" "contents f1 = contents f" using ok(2,3) lb by simp_all
        have r1: "length (contents f1) - pos f1 = ?r - ?b" using p1 by simp
        have less1: "length (contents f1) - pos f1 < ?r" using r1 b rpos by linarith
        have bound: "k + 1 + int (length (contents f1) - pos f1) < 2 ^ 63"
          using less.prems(4) r1 ge b by linarith
        have k1: "0 \<le> k + 1" using less.prems(3) by simp
        note ih = less.hyps [OF less1 rec less.prems(2) k1 bound]
        from ge obtain a where a: "?r = a + ?b" by (metis le_add_diff_inverse2)
        have cnt: "(?r + ?b - 1) div ?b = Suc ((?r - ?b + ?b - 1) div ?b)"
          unfolding a using ceil_div_add [OF b, of a] by simp
        have shift: "\<And>i. pos f1 + i * ?b = pos f + Suc i * ?b" using p1 by simp
        show ?thesis
          unfolding cnt map_upt_Suc_shift
          using ih w3 att
          by (simp add: p1 r1 algebra_simps)
      qed
    qed
  qed
qed

lemma upload_blocks_degenerate:
  "\<not> 0 < B \<Longrightarrow> snd (upload_blocks cid fsz B dbg w f first k) = w"
  by (subst upload_blocks.simps) (auto simp: Let_def ReadFull_def)

text \<open>Whatever happens, the loop only appends to the channel, and after the first turn it
  pins nothing.\<close>

lemma upload_blocks_appends:
  "(\<not> first \<longrightarrow> pin_calls (snd (upload_blocks cid fsz B dbg w f first k)) = pin_calls w)
   \<and> (\<exists>ys. msgs (snd (upload_blocks cid fsz B dbg w f first k)) cid = msgs w cid @ ys)"
proof (induction "length (contents f) - pos f" arbitrary: w f first k rule: less_induct)
  case less
  show ?case
  proof (cases "0 < B")
    case False
    then show ?thesis by (simp add: upload_blocks_degenerate)
  next
    case B: True
    let ?b = "nat B"
    from B have b: "0 < ?b" by simp
    obtain buf err f1 where rf: "ReadFull f ?b = (buf, err, f1)"
      by (cases "ReadFull f ?b") auto
    show ?thesis
    proof (cases "err = Some ErrIO")
      case True
      with rf upload_blocks_ioerr [OF B, of f buf f1 cid fsz dbg w first k]
      show ?thesis by auto
    next
      case noio: False
      note ok = ReadFull_ok [OF rf noio b]
      show ?thesis
      proof (cases "buf = []")
        case True
        from upload_blocks_stop [OF B rf noio True, of cid fsz dbg w first k]
        show ?thesis by auto
      next
        case False
        let ?bn = "wrap64 (k + 1)"
        let ?w1 = "(if \<not> dbg then bar_Add w (int (length buf))
                else log_Printf w (LogLine (''Chunk '' @ Itoa ?bn @ '': ''
                       @ Itoa (int (pos f1)) @ ''/'' @ Itoa fsz @ '' bytes'')))"
        have w1: "msgs ?w1 = msgs w" "pin_calls ?w1 = pin_calls w" by (simp_all add: note_effect)
        obtain res w2 where snd: "sendMessageWithRetry ?w1 cid (createUploadMessage (Itoa ?bn) buf) 10 = (res, w2)"
          by (cases "sendMessageWithRetry ?w1 cid (createUploadMessage (Itoa ?bn) buf) 10") auto
        note step = upload_blocks_step [OF B rf noio False, of cid fsz dbg w first k,
            unfolded Let_def snd]
        show ?thesis
        proof (cases res)
          case (Inl e)
          from send_Inl [OF snd [unfolded Inl]] step Inl w1 show ?thesis by auto
        next
          case (Inr m)
          note m = send_Inr [OF snd [unfolded Inr]]
          let ?w3 = "(if first then snd (ChannelMessagePin w2 cid (msg_ID m)) else w2)"
          have w3: "msgs ?w3 cid = msgs w cid @ [m]"
            using m(2) w1 by (simp add: pin_effect)
          have p3: "\<not> first \<longrightarrow> pin_calls ?w3 = pin_calls w"
            using m(3) w1 by simp
          show ?thesis
          proof (cases "int (length buf) < B")
            case True
            with step Inr w3 p3 show ?thesis by auto
          next
            case short: False
            from False ok(1) have "0 < length (contents f) - pos f" by (cases "length (contents f) - pos f") auto
            moreover from False ok(2,3) have "length (contents f1) - pos f1 = length (contents f) - pos f - length buf"
              by simp
            moreover from False have "0 < length buf" by simp
            ultimately have less1: "length (contents f1) - pos f1 < length (contents f) - pos f"
              by linarith
            from less.hyps [OF less1, where w = ?w3 and first = False and k = ?bn]
            have ih: "pin_calls (snd (upload_blocks cid fsz B dbg ?w3 f1 False ?bn)) = pin_calls ?w3"
              and "\<exists>ys. msgs (snd (upload_blocks cid fsz B dbg ?w3 f1 False ?bn)) cid = msgs ?w3 cid @ ys"
              by simp_all
            then obtain ys where ys: "msgs (snd (upload_blocks cid fsz B dbg ?w3 f1 False ?bn)) cid
                = msgs w cid @ [m] @ ys"
              unfolding w3 by auto
            from step Inr short
            have r: "upload_blocks cid fsz B dbg w f first k
                = upload_blocks cid fsz B dbg ?w3 f1 False ?bn" by simp
            show ?thesis unfolding r using ih p3 ys by auto
          qed
        qed
      qed
    qed
  qed
qed

lemma ceil_div_cases:
  fixes s b :: nat
  assumes "0 < b"
  shows "(s + b - 1) div b = (if s mod b = 0 then s div b else Suc (s div b))"
proof -
  from assms have nz: "b \<noteq> 0" by simp
  have s: "s = s mod b + s div b * b" by simp
  show ?thesis
  proof (cases "s mod b = 0")
    case True
    with s have "s + b - 1 = (b - 1) + s div b * b" using assms by linarith
    then have "(s + b - 1) div b = ((b - 1) + s div b * b) div b" by simp
    also have "\<dots> = s div b + (b - 1) div b" by (rule div_mult_self1 [OF nz])
    also have "(b - 1) div b = 0" using assms by simp
    finally show ?thesis using True by simp
  next
    case False
    then have "0 < s mod b" by simp
    moreover have "Suc (s div b) * b = b + s div b * b" by simp
    ultimately have "s + b - 1 = (s mod b - 1) + Suc (s div b) * b" using s by linarith
    then have "(s + b - 1) div b = ((s mod b - 1) + Suc (s div b) * b) div b" by simp
    also have "\<dots> = Suc (s div b) + (s mod b - 1) div b" by (rule div_mult_self1 [OF nz])
    also have "(s mod b - 1) div b = 0"
      using assms by (simp add: less_imp_diff_less)
    finally show ?thesis using False by simp
  qed
qed

lemma ceil_div_covers:
  fixes s b :: nat
  assumes "0 < b"
  shows "s \<le> (s + b - 1) div b * b"
proof -
  have s: "s = s mod b + s div b * b" by simp
  have "s mod b < b" using assms by simp
  show ?thesis
  proof (cases "s mod b = 0")
    case True
    with s ceil_div_cases [OF assms, of s] show ?thesis by simp
  next
    case False
    have "Suc (s div b) * b = b + s div b * b" by simp
    with s \<open>s mod b < b\<close> have "s \<le> Suc (s div b) * b" by linarith
    with False ceil_div_cases [OF assms, of s] show ?thesis by simp
  qed
qed

lemma concat_chunks:
  "length xs \<le> n * b \<Longrightarrow> concat (map (\<lambda>i. take b (drop (i * b) xs)) [0..<n]) = xs"
proof (induction n arbitrary: xs)
  case 0
  then show ?case by simp
next
  case (Suc n)
  have sh: "map (\<lambda>i. take b (drop (i * b) xs)) [0..<Suc n]
      = take b xs # map (\<lambda>i. take b (drop (i * b) (drop b xs))) [0..<n]"
  proof -
    have "[0..<Suc n] = 0 # map Suc [0..<n]"
      by (simp only: map_Suc_upt upt_conv_Cons [of 0 "Suc n"] zero_less_Suc if_True)
    then show ?thesis by (simp add: comp_def add.commute)
  qed
  from Suc.prems have "length (drop b xs) \<le> n * b" by simp
  from Suc.IH [OF this] show ?case
    unfolding sh by simp
qed

lemma chunk_length:
  fixes b :: nat
  assumes "0 < b" and "i < (length xs + b - 1) div b"
  shows "length (take b (drop (i * b) xs)) =
           (if Suc i < (length xs + b - 1) div b then b
            else if length xs mod b = 0 then b else length xs mod b)"
proof -
  let ?s = "length xs"
  let ?n = "(?s + b - 1) div b"
  have s: "?s = ?s mod b + ?s div b * b" by simp
  have m: "?s mod b < b" using assms(1) by simp
  note n = ceil_div_cases [OF assms(1), of ?s]
  have len: "length (take b (drop (i * b) xs)) = min b (?s - i * b)" by simp
  show ?thesis
  proof (cases "?s mod b = 0")
    case True
    with n have nq: "?n = ?s div b" by simp
    from True s have sq: "?s = ?n * b" using nq by simp
    from assms(2) have "Suc i \<le> ?n" by simp
    then have "Suc i * b \<le> ?n * b" by (rule mult_le_mono1)
    then have "b \<le> ?s - i * b" using sq by simp
    then show ?thesis using True len by simp
  next
    case False
    with n have nq: "?n = Suc (?s div b)" by simp
    show ?thesis
    proof (cases "Suc i < ?n")
      case True
      then have "Suc i \<le> ?s div b" using nq by simp
      then have "Suc i * b \<le> ?s div b * b" by (rule mult_le_mono1)
      also have "\<dots> \<le> ?s" by simp
      finally have "b \<le> ?s - i * b" by simp
      then show ?thesis using True len by simp
    next
      case F: False
      with assms(2) nq have i: "i = ?s div b" by simp
      have "?s - i * b = ?s mod b" unfolding i using s by linarith
      then show ?thesis using F False len m by simp
    qed
  qed
qed

lemma ceil_div_ge2:
  fixes s b :: nat
  assumes "0 < b" and "b < s"
  shows "2 \<le> (s + b - 1) div b"
proof -
  from assms obtain a where a: "s = Suc a + b"
    by (metis add.commute less_imp_Suc_add add_Suc_right add_Suc)
  from assms(1) have nz: "b \<noteq> 0" by simp
  have e: "s + b - 1 = (a + b) + b" unfolding a by simp
  have "(a + b + b) div b = (a + b) div b + 1" by (rule div_add_self2 [OF nz])
  moreover have "(a + b) div b = a div b + 1" by (rule div_add_self2 [OF nz])
  ultimately show ?thesis unfolding e by linarith
qed

lemma send_first_try:
  "script w = [] \<Longrightarrow>
     sendMessageWithRetry w c msg 10 =
       (Inr \<lparr>msg_ID = next_id w,
             Attachments = [\<lparr>Filename = File_Name msg, Size = int (length (File_Reader msg)),
                             Payload = File_Reader msg\<rparr>]\<rparr>,
        w\<lparr>next_id := Suc (next_id w),
          msgs := (msgs w)(c := msgs w c @
                   [\<lparr>msg_ID = next_id w,
                     Attachments = [\<lparr>Filename = File_Name msg,
                                     Size = int (length (File_Reader msg)),
                                     Payload = File_Reader msg\<rparr>]\<rparr>])\<rparr>)"
  unfolding sendMessageWithRetry_def
  by (subst sendMessageWithRetry_from.simps)
     (simp add: ChannelMessageSendComplex_def api_call_def Let_def)

lemma Itoa_small: "Itoa 1 = ''1''" "Itoa 2 = ''2''" "Itoa 3 = ''3''" "Itoa 4 = ''4''" "Itoa 5 = ''5''"
  "Itoa 50 = ''50''" "Itoa 100 = ''100''" "Itoa 150 = ''150''" "Itoa 151 = ''151''"
  by (simp_all add: Itoa_def digits.simps digit_char_def)

subsection \<open>The command handler\<close>

text \<open>
  C10. The channel limit is checked for fresh uploads only. A fresh upload started with the
  number of file channels at or above \<^verbatim>\<open>MaxDiscordChannels\<close> fails with the limit error and
  leaves the world as it was: no file is opened and no remote call is made. With the resume
  flag set the limit is never consulted: the command behaves the same whatever the limit is.
\<close>

theorem channel_limit_only_fresh:
  "(session_error env = None \<and> fileMap_result env = Inr fileMap
      \<and> MaxDiscordChannels env \<le> int (length fileMap)
     \<longrightarrow> up env dbg False args w = (Inl (ChannelLimitReached (MaxDiscordChannels env)), w))
   \<and> up (env\<lparr>MaxDiscordChannels := limit\<rparr>) dbg True args w = up env dbg True args w"
proof (intro conjI impI)
  assume "session_error env = None \<and> fileMap_result env = Inr fileMap
      \<and> MaxDiscordChannels env \<le> int (length fileMap)"
  then show "up env dbg False args w = (Inl (ChannelLimitReached (MaxDiscordChannels env)), w)"
    by (simp add: up_def)
next
  show "up (env\<lparr>MaxDiscordChannels := limit\<rparr>) dbg True args w = up env dbg True args w"
  proof (cases "session_error env")
    case (Some e)
    then show ?thesis by (simp add: up_def)
  next
    case None
    show ?thesis
    proof (cases "fileMap_result env")
      case (Inl e)
      with None show ?thesis by (simp add: up_def)
    next
      case (Inr fileMap)
      show ?thesis
      proof (cases args)
        case Nil
        with None Inr show ?thesis by (simp add: up_def)
      next
        case (Cons local others)
        show ?thesis
        proof (cases "local_files env local")
          case no: None
          with None Inr Cons show ?thesis by (simp add: up_def)
        next
          case (Some f)
          with None Inr Cons show ?thesis by (simp add: up_def Let_def split: sum.split)
        qed
      qed
    qed
  qed
qed

lemma ChannelMessages_world:
  "snd (ChannelMessages w c l a) = w\<lparr>script := tl (script w)\<rparr>"
  by (cases "script w") (auto simp: ChannelMessages_def api_call_def split: option.splits)

text \<open>
  C8. A resume whose container topic differs from the decimal string of the local file size
  fails with the size-mismatch error; the only change to the world is that the local file was
  opened: no outcome of the script is consumed, so no message is sent, nothing is pinned and
  no channel is created or edited.
\<close>

theorem resume_size_mismatch:
  assumes "session_error env = None" and "fileMap_result env = Inr fileMap"
    and "args = local # others" and "local_files env local = Some f"
    and "map_of fileMap (case others of [] \<Rightarrow> snd (filepath_Split local) | r # _ \<Rightarrow> r)
           = Some channel"
    and "\<not> stat_fails f" and "max_upload_result env = Inr maxDiscordFileSize"
    and "Topic channel \<noteq> FormatInt (int (length (contents f)))"
  shows "up env dbg True args w = (Inl SizeMismatch, w\<lparr>opened := opened w @ [local]\<rparr>)"
  using assms by (simp add: up_def Let_def)

text \<open>
  C5. When the resume inspection has found the candidate block size (the size of the oldest
  message's attachment) and the last block index, and their product equals the local file
  size, the command fails with the already-complete error. The two listings are the only
  remote calls: the messages, the pins and the channels are unchanged.
\<close>

theorem resume_already_complete:
  assumes "session_error env = None" and "fileMap_result env = Inr fileMap"
    and "args = local # others" and "local_files env local = Some f"
    and "map_of fileMap (case others of [] \<Rightarrow> snd (filepath_Split local) | r # _ \<Rightarrow> r)
           = Some channel"
    and "\<not> stat_fails f" and "max_upload_result env = Inr maxDiscordFileSize"
    and "Topic channel = FormatInt (int (length (contents f)))"
    and "ChannelMessages (w\<lparr>opened := opened w @ [local]\<rparr>) (ch_ID channel) 1 (Some 0)
           = (Inr (m # ms), w1)"
    and "Attachments m = a # as" and "Size a \<le> maxDiscordFileSize"
    and "ChannelMessages w1 (ch_ID channel) 2 None = (Inr newest, w2)"
    and "last_block newest (Size a) 0 = Inr lastBlockIndex"
    and "lastBlockIndex * Size a = int (length (contents f))"
    and "int (length (contents f)) < 2 ^ 63"
  shows "up env dbg True args w = (Inl AlreadyComplete, w2)
       \<and> w2 = w\<lparr>opened := opened w @ [local], script := tl (tl (script w))\<rparr>
       \<and> msgs w2 = msgs w \<and> pin_calls w2 = pin_calls w \<and> chans w2 = chans w"
proof -
  have wr: "wrap64 (lastBlockIndex * Size a) = int (length (contents f))"
    unfolding assms(14) using assms(15) by (intro wrap64_id) simp_all
  have r: "up env dbg True args w = (Inl AlreadyComplete, w2)"
    using assms(1-13) wr by (simp add: up_def Let_def resume_upload_def)
  from ChannelMessages_world [of "w\<lparr>opened := opened w @ [local]\<rparr>" "ch_ID channel" 1 "Some 0"] assms(9)
  have w1: "w1 = w\<lparr>opened := opened w @ [local], script := tl (script w)\<rparr>" by simp
  from ChannelMessages_world [of w1 "ch_ID channel" 2 None] assms(12)
  have w2: "w2 = w1\<lparr>script := tl (script w1)\<rparr>" by simp
  show ?thesis using r w1 w2 by simp
qed

lemma FormatInt_151: "FormatInt 151 = ''151''"
  by (simp add: FormatInt_def Itoa_def digits.simps digit_char_def)

lemma FormatInt_200: "FormatInt 200 = ''200''"
  by (simp add: FormatInt_def Itoa_def digits.simps digit_char_def)

lemma Atoi_2: "Atoi ''2'' = Inr 2"
  by (simp add: Atoi_def digit_val_def)

lemma Split_f: "filepath_Split ''f.bin'' = ([], ''f.bin'')"
  by (simp add: filepath_Split_def)

theorem channel_limit_only_fresh_witness:
  "session_error (sample_env [(''f.bin'', sample_channel ''1''), (''b'', sample_channel ''2'')] 2 150
                   (two_part_file 100 51)) = None
   \<and> fileMap_result (sample_env [(''f.bin'', sample_channel ''1''), (''b'', sample_channel ''2'')] 2
                   150 (two_part_file 100 51))
       = Inr [(''f.bin'', sample_channel ''1''), (''b'', sample_channel ''2'')]
   \<and> MaxDiscordChannels (sample_env [(''f.bin'', sample_channel ''1''), (''b'', sample_channel ''2'')]
                   2 150 (two_part_file 100 51))
       \<le> int (length [(''f.bin'', sample_channel ''1''), (''b'', sample_channel ''2'')])
   \<and> up (sample_env [(''f.bin'', sample_channel ''1''), (''b'', sample_channel ''2'')] 2 150
           (two_part_file 100 51)) False False [''f.bin''] (remote_world [])
       = (Inl (ChannelLimitReached 2), remote_world [])
   \<and> up ((sample_env [(''f.bin'', sample_channel ''1''), (''b'', sample_channel ''2'')] 2 150
           (two_part_file 100 51))\<lparr>MaxDiscordChannels := 0\<rparr>) False True [''f.bin'']
          (remote_world [])
       = (Inl SizeMismatch, (remote_world [])\<lparr>opened := [''f.bin'']\<rparr>)"
  using channel_limit_only_fresh [where env = "sample_env [(''f.bin'', sample_channel ''1''),
      (''b'', sample_channel ''2'')] 2 150 (two_part_file 100 51)"
      and fileMap = "[(''f.bin'', sample_channel ''1''), (''b'', sample_channel ''2'')]"
      and dbg = False and args = "[''f.bin'']" and w = "remote_world []" and limit = 0]
  by (simp add: sample_env_def up_def sample_channel_def two_part_file_def FormatInt_151
        remote_world_def Split_f)

theorem resume_size_mismatch_witness:
  "session_error (sample_env [(''f.bin'', sample_channel ''999'')] 500 150 (two_part_file 100 51))
     = None
   \<and> fileMap_result (sample_env [(''f.bin'', sample_channel ''999'')] 500 150 (two_part_file 100 51))
       = Inr [(''f.bin'', sample_channel ''999'')]
   \<and> local_files (sample_env [(''f.bin'', sample_channel ''999'')] 500 150 (two_part_file 100 51))
        ''f.bin'' = Some (two_part_file 100 51)
   \<and> map_of [(''f.bin'', sample_channel ''999'')] ''f.bin'' = Some (sample_channel ''999'')
   \<and> \<not> stat_fails (two_part_file 100 51)
   \<and> max_upload_result (sample_env [(''f.bin'', sample_channel ''999'')] 500 150
        (two_part_file 100 51)) = Inr 150
   \<and> Topic (sample_channel ''999'') \<noteq> FormatInt (int (length (contents (two_part_file 100 51))))
   \<and> up (sample_env [(''f.bin'', sample_channel ''999'')] 500 150 (two_part_file 100 51))
        True True [''f.bin''] (remote_world [block_message 101 ''1'' (replicate 100 1)])
       = (Inl SizeMismatch,
          (remote_world [block_message 101 ''1'' (replicate 100 1)])\<lparr>opened := [''f.bin'']\<rparr>)"
proof -
  have h: "session_error (sample_env [(''f.bin'', sample_channel ''999'')] 500 150
             (two_part_file 100 51)) = None"
    "fileMap_result (sample_env [(''f.bin'', sample_channel ''999'')] 500 150 (two_part_file 100 51))
       = Inr [(''f.bin'', sample_channel ''999'')]"
    "[''f.bin''] = ''f.bin'' # []"
    "local_files (sample_env [(''f.bin'', sample_channel ''999'')] 500 150 (two_part_file 100 51))
        ''f.bin'' = Some (two_part_file 100 51)"
    "map_of [(''f.bin'', sample_channel ''999'')]
       (case [] of [] \<Rightarrow> snd (filepath_Split ''f.bin'') | r # _ \<Rightarrow> r)
       = Some (sample_channel ''999'')"
    "\<not> stat_fails (two_part_file 100 51)"
    "max_upload_result (sample_env [(''f.bin'', sample_channel ''999'')] 500 150
        (two_part_file 100 51)) = Inr 150"
    "Topic (sample_channel ''999'') \<noteq> FormatInt (int (length (contents (two_part_file 100 51))))"
    by (simp_all add: sample_env_def sample_channel_def two_part_file_def FormatInt_151 Split_f)
  show ?thesis
    using h resume_size_mismatch [OF h, of True
        "remote_world [block_message 101 ''1'' (replicate 100 1)]"]
    by (simp add: Split_f remote_world_def)
qed

theorem resume_already_complete_witness:
  "Topic (sample_channel ''200'') = FormatInt (int (length (contents (two_part_file 100 100))))
   \<and> last_block [block_message 102 ''2'' (replicate 100 2),
                  block_message 101 ''1'' (replicate 100 1)] 100 0 = Inr 2
   \<and> (2::int) * 100 = int (length (contents (two_part_file 100 100)))
   \<and> up complete_env False True [''f.bin''] complete_world
       = (Inl AlreadyComplete, complete_world\<lparr>opened := [''f.bin'']\<rparr>)
   \<and> msgs (complete_world\<lparr>opened := [''f.bin'']\<rparr>) 100 = msgs complete_world 100"
proof -
  have h: "session_error complete_env = None"
      "fileMap_result complete_env = Inr [(''f.bin'', sample_channel ''200'')]"
      "[''f.bin''] = ''f.bin'' # []"
      "local_files complete_env ''f.bin'' = Some (two_part_file 100 100)"
      "map_of [(''f.bin'', sample_channel ''200'')]
         (case [] of [] \<Rightarrow> snd (filepath_Split ''f.bin'') | r # _ \<Rightarrow> r)
         = Some (sample_channel ''200'')"
      "\<not> stat_fails (two_part_file 100 100)"
      "max_upload_result complete_env = Inr 150"
      "Topic (sample_channel ''200'') = FormatInt (int (length (contents (two_part_file 100 100))))"
      by (simp_all add: complete_env_def sample_env_def sample_channel_def two_part_file_def FormatInt_200 Split_f)

  have l1: "ChannelMessages (complete_world\<lparr>opened := opened complete_world @ [''f.bin'']\<rparr>) (ch_ID (sample_channel ''200'')) 1 (Some 0)
          = (Inr (block_message 101 ''1'' (replicate 100 1) # []), complete_world\<lparr>opened := opened complete_world @ [''f.bin'']\<rparr>)"
      by (simp add: complete_world_def ChannelMessages_def api_call_def remote_world_def sample_channel_def
            block_message_def)

  have a: "Attachments (block_message 101 ''1'' (replicate 100 1))
          = \<lparr>Filename = ''1'', Size = 100, Payload = replicate 100 1\<rparr> # []"
      "Size \<lparr>Filename = ''1'', Size = 100, Payload = replicate 100 1\<rparr> \<le> 150"
      by (simp_all add: block_message_def)

  have l2: "ChannelMessages (complete_world\<lparr>opened := opened complete_world @ [''f.bin'']\<rparr>) (ch_ID (sample_channel ''200'')) 2 None
          = (Inr [block_message 102 ''2'' (replicate 100 2),
                  block_message 101 ''1'' (replicate 100 1)], complete_world\<lparr>opened := opened complete_world @ [''f.bin'']\<rparr>)"
      by (simp add: complete_world_def ChannelMessages_def api_call_def remote_world_def sample_channel_def)

  have lb: "last_block [block_message 102 ''2'' (replicate 100 2),
                  block_message 101 ''1'' (replicate 100 1)]
                (Size \<lparr>Filename = ''1'', Size = 100, Payload = replicate 100 1\<rparr>) 0 = Inr 2"
      by (simp add: block_message_def Atoi_2)

  have p: "2 * Size \<lparr>Filename = ''1'', Size = 100, Payload = replicate 100 1\<rparr>
          = int (length (contents (two_part_file 100 100)))"
      "int (length (contents (two_part_file 100 100))) < 2 ^ 63"
      by (simp_all add: two_part_file_def)



  have W0: "complete_world\<lparr>opened := opened complete_world @ [''f.bin'']\<rparr> = complete_world\<lparr>opened := [''f.bin'']\<rparr>"
      by (simp add: complete_world_def remote_world_def)

  have c2: "last_block [block_message 102 ''2'' (replicate 100 2),
                  block_message 101 ''1'' (replicate 100 1)] 100 0 = Inr 2"
      using lb by simp
  have c3: "(2::int) * 100 = int (length (contents (two_part_file 100 100)))"
    using p(1) by simp
  note resume_already_complete [OF h l1 a l2 lb p, of False, THEN conjunct1]
  then have c4: "up complete_env False True [''f.bin''] complete_world
       = (Inl AlreadyComplete, complete_world\<lparr>opened := [''f.bin'']\<rparr>)"
    unfolding W0 .
  have c5: "msgs (complete_world\<lparr>opened := [''f.bin'']\<rparr>) 100 = msgs complete_world 100"
    by simp
  show ?thesis
    apply (intro conjI)
        apply (rule h(8))
       apply (rule c2)
      apply (rule c3)
     apply (rule c4)
    apply (rule c5)
    done
qed

subsection \<open>The two upload paths\<close>

lemma uploadChunkedFile_loop:
  assumes "0 \<le> maxChunkSize" and "maxChunkSize < 2 ^ 63"
  shows "uploadChunkedFile w channel f filename fsz maxChunkSize dbg resume startBlock =
     (if maxChunkSize \<le> 50 then (Inl ChunkTooSmall, w)
      else upload_blocks (ch_ID channel) fsz (maxChunkSize - 50) dbg
             (if \<not> dbg
              then bar_Add (bar_DefaultBytes w fsz (''Uploading '' @ filename))
                     (wrap64 (startBlock * (maxChunkSize - 50)))
              else w)
             f (\<not> resume) startBlock)"
proof -
  have "wrap64 (maxChunkSize - 50) = maxChunkSize - 50"
    using assms by (intro wrap64_id) simp_all
  then show ?thesis
    by (simp add: uploadChunkedFile_def Let_def)
qed

text \<open>The pin of a loop entered with \<open>first\<close> set: none when no block was stored, otherwise
  one, on the first message the loop stored, which carries block \<open>k + 1\<close>.\<close>

lemma upload_blocks_first_pin:
  "(let w' = snd (upload_blocks cid fsz B dbg w f True k); old = length (msgs w cid)
    in if length (msgs w' cid) = old then pin_calls w' = pin_calls w
       else pin_calls w' = pin_calls w @ [(cid, msg_ID (msgs w' cid ! old))]
          \<and> map Filename (Attachments (msgs w' cid ! old)) = [Itoa (wrap64 (k + 1))])"
proof (cases "0 < B")
  case False
  then show ?thesis by (simp add: upload_blocks_degenerate)
next
  case B: True
  let ?b = "nat B"
  from B have b: "0 < ?b" by simp
  obtain buf err f1 where rf: "ReadFull f ?b = (buf, err, f1)"
    by (cases "ReadFull f ?b") auto
  show ?thesis
  proof (cases "err = Some ErrIO")
    case True
    with rf upload_blocks_ioerr [OF B, of f buf f1 cid fsz dbg w True k]
    show ?thesis by simp
  next
    case noio: False
    show ?thesis
    proof (cases "buf = []")
      case True
      from upload_blocks_stop [OF B rf noio True, of cid fsz dbg w True k]
      show ?thesis by simp
    next
      case False
      let ?bn = "wrap64 (k + 1)"
      let ?w1 = "(if \<not> dbg then bar_Add w (int (length buf))
                else log_Printf w (LogLine (''Chunk '' @ Itoa ?bn @ '': ''
                       @ Itoa (int (pos f1)) @ ''/'' @ Itoa fsz @ '' bytes'')))"
      have w1: "msgs ?w1 = msgs w" "pin_calls ?w1 = pin_calls w" by (simp_all add: note_effect)
      obtain res w2 where snd: "sendMessageWithRetry ?w1 cid (createUploadMessage (Itoa ?bn) buf) 10 = (res, w2)"
        by (cases "sendMessageWithRetry ?w1 cid (createUploadMessage (Itoa ?bn) buf) 10") auto
      note step = upload_blocks_step [OF B rf noio False, of cid fsz dbg w True k,
          unfolded Let_def snd]
      show ?thesis
      proof (cases res)
        case (Inl e)
        from send_Inl [OF snd [unfolded Inl]] step Inl w1 show ?thesis by simp
      next
        case (Inr m)
        note m = send_Inr [OF snd [unfolded Inr]]
        let ?w3 = "snd (ChannelMessagePin w2 cid (msg_ID m))"
        have w3: "msgs ?w3 cid = msgs w cid @ [m]"
          using m(2) w1 by (simp add: pin_effect)
        have p3: "pin_calls ?w3 = pin_calls w @ [(cid, msg_ID m)]"
          using m(3) w1 by (simp add: pin_effect)
        have nm: "map Filename (Attachments m) = [Itoa ?bn]" using m(1) by simp
        show ?thesis
        proof (cases "int (length buf) < B")
          case True
          with step Inr have "snd (upload_blocks cid fsz B dbg w f True k) = ?w3" by simp
          then show ?thesis using w3 p3 nm by (simp add: Let_def)
        next
          case short: False
          from step Inr short
          have r: "upload_blocks cid fsz B dbg w f True k
              = upload_blocks cid fsz B dbg ?w3 f1 False ?bn" by simp
          from upload_blocks_appends [of False cid fsz B dbg ?w3 f1 ?bn]
          obtain ys where "pin_calls (snd (upload_blocks cid fsz B dbg ?w3 f1 False ?bn)) = pin_calls ?w3"
            and "msgs (snd (upload_blocks cid fsz B dbg ?w3 f1 False ?bn)) cid = msgs ?w3 cid @ ys"
            by auto
          then show ?thesis unfolding r using w3 p3 nm by (simp add: Let_def)
        qed
      qed
    qed
  qed
qed

lemma ReadAll_cases:
  "(\<exists>got f1. ReadAll f = (got, Some ErrIO, f1))
   \<or> (\<exists>f1. ReadAll f = (drop (pos f) (contents f), None, f1))"
  by (auto simp: ReadAll_def read_bytes_def split: option.splits)

lemma uploadSingleFile_effect:
  "(let w' = snd (uploadSingleFile w ch f base fsz dbg resume); old = length (msgs w (ch_ID ch))
    in if length (msgs w' (ch_ID ch)) = old then pin_calls w' = pin_calls w
       else map (\<lambda>m. map Filename (Attachments m)) (msgs w' (ch_ID ch)) =
              map (\<lambda>m. map Filename (Attachments m)) (msgs w (ch_ID ch)) @ [[''1'']]
          \<and> pin_calls w' =
              pin_calls w @ (if resume then [] else [(ch_ID ch, msg_ID (msgs w' (ch_ID ch) ! old))]))"
proof -
  from ReadAll_cases [of f] show ?thesis
  proof (elim disjE exE)
    fix got f1 assume "ReadAll f = (got, Some ErrIO, f1)"
    then show ?thesis by (simp add: uploadSingleFile_def)
  next
    fix f1 assume ra: "ReadAll f = (drop (pos f) (contents f), None, f1)"
    let ?d = "drop (pos f) (contents f)"
    let ?w1 = "(if \<not> dbg then bar_DefaultBytes w fsz (''Uploading '' @ base) else w)"
    have w1: "msgs ?w1 = msgs w" "pin_calls ?w1 = pin_calls w" by (simp_all add: note_effect)
    obtain res w2 where snd: "sendMessageWithRetry ?w1 (ch_ID ch) (createUploadMessage ''1'' ?d) 10 = (res, w2)"
      by (cases "sendMessageWithRetry ?w1 (ch_ID ch) (createUploadMessage ''1'' ?d) 10") auto
    show ?thesis
    proof (cases res)
      case (Inl e)
      from send_Inl [OF snd [unfolded Inl]] w1 snd Inl ra show ?thesis
        by (simp add: uploadSingleFile_def Let_def)
    next
      case (Inr m)
      note m = send_Inr [OF snd [unfolded Inr]]
      let ?w3 = "(if \<not> resume then snd (ChannelMessagePin w2 (ch_ID ch) (msg_ID m)) else w2)"
      let ?w4 = "(if \<not> dbg then bar_Add ?w3 fsz else ?w3)"
      have r: "snd (uploadSingleFile w ch f base fsz dbg resume) = ?w4"
        using ra snd Inr by (simp add: uploadSingleFile_def Let_def)
      have w4: "msgs ?w4 (ch_ID ch) = msgs w (ch_ID ch) @ [m]"
        using m(2) w1 by (simp add: pin_effect note_effect)
      have p4: "pin_calls ?w4 = pin_calls w @ (if resume then [] else [(ch_ID ch, msg_ID m)])"
        using m(3) w1 by (simp add: pin_effect note_effect)
      show ?thesis unfolding r using w4 p4 m(1) by (simp add: Let_def)
    qed
  qed
qed

text \<open>
  C7. A resumed transfer issues no pin, in either path. A fresh transfer issues no pin when
  it stores no block, and otherwise exactly one: on the first message it stored, whose
  attachment is named \<open>1\<close>. Pinning is best effort: the call is what the code controls.
\<close>

theorem anchor_pinned_once:
  "pin_calls (snd (uploadSingleFile w ch f base fsz dbg True)) = pin_calls w
   \<and> pin_calls (snd (uploadChunkedFile w ch f base fsz maxSize dbg True k)) = pin_calls w
   \<and> (let w' = snd (uploadSingleFile w ch f base fsz dbg False); old = length (msgs w (ch_ID ch))
       in if length (msgs w' (ch_ID ch)) = old then pin_calls w' = pin_calls w
          else pin_calls w' = pin_calls w @ [(ch_ID ch, msg_ID (msgs w' (ch_ID ch) ! old))]
             \<and> map Filename (Attachments (msgs w' (ch_ID ch) ! old)) = [''1''])
   \<and> (let w' = snd (uploadChunkedFile w ch f base fsz maxSize dbg False 0);
           old = length (msgs w (ch_ID ch))
       in if length (msgs w' (ch_ID ch)) = old then pin_calls w' = pin_calls w
          else pin_calls w' = pin_calls w @ [(ch_ID ch, msg_ID (msgs w' (ch_ID ch) ! old))]
             \<and> map Filename (Attachments (msgs w' (ch_ID ch) ! old)) = [''1''])"
proof (intro conjI)
  from uploadSingleFile_effect [of w ch f base fsz dbg True]
  show "pin_calls (snd (uploadSingleFile w ch f base fsz dbg True)) = pin_calls w"
    by (simp add: Let_def split: if_splits)
next
  let ?c = "wrap64 (maxSize - 50)"
  let ?w1 = "(if \<not> dbg then bar_Add (bar_DefaultBytes w fsz (''Uploading '' @ base))
                             (wrap64 (k * ?c)) else w)"
  have w1: "pin_calls ?w1 = pin_calls w" by (simp add: note_effect)
  from upload_blocks_appends [of False "ch_ID ch" fsz ?c dbg ?w1 f k] w1
  show "pin_calls (snd (uploadChunkedFile w ch f base fsz maxSize dbg True k)) = pin_calls w"
    by (simp add: uploadChunkedFile_def Let_def)
next
  let ?w' = "snd (uploadSingleFile w ch f base fsz dbg False)"
  let ?old = "length (msgs w (ch_ID ch))"
  show "(let w' = ?w'; old = ?old
       in if length (msgs w' (ch_ID ch)) = old then pin_calls w' = pin_calls w
          else pin_calls w' = pin_calls w @ [(ch_ID ch, msg_ID (msgs w' (ch_ID ch) ! old))]
             \<and> map Filename (Attachments (msgs w' (ch_ID ch) ! old)) = [''1''])"
  proof (cases "length (msgs ?w' (ch_ID ch)) = ?old")
    case True
    with uploadSingleFile_effect [of w ch f base fsz dbg False] show ?thesis
      by (simp add: Let_def)
  next
    case False
    with uploadSingleFile_effect [of w ch f base fsz dbg False]
    have a: "map (\<lambda>m. map Filename (Attachments m)) (msgs ?w' (ch_ID ch)) =
              map (\<lambda>m. map Filename (Attachments m)) (msgs w (ch_ID ch)) @ [[''1'']]"
      and p: "pin_calls ?w' = pin_calls w @ [(ch_ID ch, msg_ID (msgs ?w' (ch_ID ch) ! ?old))]"
      by (simp_all add: Let_def)
    from arg_cong [OF a, of length] have l: "?old < length (msgs ?w' (ch_ID ch))" by simp
    from arg_cong [OF a, of "\<lambda>xs. xs ! ?old"] l
    have "map Filename (Attachments (msgs ?w' (ch_ID ch) ! ?old)) = [''1'']"
      by (simp add: nth_append)
    with False p show ?thesis by (simp add: Let_def)
  qed
next
  let ?c = "wrap64 (maxSize - 50)"
  let ?w1 = "(if \<not> dbg then bar_Add (bar_DefaultBytes w fsz (''Uploading '' @ base))
                             (wrap64 (0 * ?c)) else w)"
  have w1: "pin_calls ?w1 = pin_calls w" "msgs ?w1 = msgs w" by (simp_all add: note_effect)
  have one: "wrap64 (0 + 1) = 1" by (simp add: wrap64_def)
  show "(let w' = snd (uploadChunkedFile w ch f base fsz maxSize dbg False 0);
           old = length (msgs w (ch_ID ch))
       in if length (msgs w' (ch_ID ch)) = old then pin_calls w' = pin_calls w
          else pin_calls w' = pin_calls w @ [(ch_ID ch, msg_ID (msgs w' (ch_ID ch) ! old))]
             \<and> map Filename (Attachments (msgs w' (ch_ID ch) ! old)) = [''1''])"
  proof (cases "?c \<le> 0")
    case True
    then show ?thesis by (simp add: uploadChunkedFile_def Let_def)
  next
    case False
    then have r: "uploadChunkedFile w ch f base fsz maxSize dbg False 0
        = upload_blocks (ch_ID ch) fsz ?c dbg ?w1 f True 0"
      by (simp add: uploadChunkedFile_def Let_def)
    from upload_blocks_first_pin [of "ch_ID ch" fsz ?c dbg ?w1 f 0]
    show ?thesis unfolding r w1 one by (simp add: Let_def Itoa_small)
  qed
qed

subsection \<open>Uploads in which no remote call fails\<close>

lemma note_script:
  "script (bar_Add w n) = script w" "script (log_Printf w l) = script w"
  "script (bar_DefaultBytes w t d) = script w"
  by (simp_all add: bar_Add_def log_Printf_def bar_DefaultBytes_def)

lemma pin_script: "script w = [] \<Longrightarrow> script (snd (ChannelMessagePin w c m)) = []"
  by (simp add: ChannelMessagePin_def api_call_def Let_def)

lemma send_Inr_first:
  assumes "sendMessageWithRetry w c msg 10 = (res, w2)" and "script w = []"
  shows "res = Inr \<lparr>msg_ID = next_id w,
                     Attachments = [\<lparr>Filename = File_Name msg,
                                     Size = int (length (File_Reader msg)),
                                     Payload = File_Reader msg\<rparr>]\<rparr>"
    and "script w2 = []"
  using send_first_try [OF assms(2), of c msg] assms by auto

text \<open>When no remote call fails, the blocks stored by a loop that returns without error
  hold the chunks: block \<open>k + 1 + i\<close> holds the \<open>i\<close>-th chunk of the bytes from the read
  position on.\<close>

lemma upload_blocks_writes:
  assumes "upload_blocks cid fsz B dbg w f first k = (Inr (), w')"
    and "0 < B" and "0 \<le> k" and "k + int (length (contents f) - pos f) < 2 ^ 63"
    and "script w = []"
  shows "map Attachments (msgs w' cid) =
           map Attachments (msgs w cid) @
           map (\<lambda>i. [\<lparr>Filename = Itoa (k + 1 + int i),
                       Size = int (length (take (nat B) (drop (pos f + i * nat B) (contents f)))),
                       Payload = take (nat B) (drop (pos f + i * nat B) (contents f))\<rparr>])
               [0..<(length (contents f) - pos f + nat B - 1) div nat B]"
  using assms
proof (induction "length (contents f) - pos f" arbitrary: w f first k rule: less_induct)
  case less
  let ?r = "length (contents f) - pos f"
  let ?b = "nat B"
  from less.prems(2) have b: "0 < ?b" by simp
  obtain buf err f1 where rf: "ReadFull f ?b = (buf, err, f1)"
    by (cases "ReadFull f ?b") auto
  have noio: "err \<noteq> Some ErrIO"
  proof
    assume "err = Some ErrIO"
    with rf upload_blocks_ioerr [OF less.prems(2), of f buf f1 cid fsz dbg w first k] less.prems(1)
    show False by simp
  qed
  note ok = ReadFull_ok [OF rf noio b]
  show ?case
  proof (cases "buf = []")
    case True
    with ok(1) b have r0: "?r = 0" by (cases "?r") auto
    from upload_blocks_stop [OF less.prems(2) rf noio True, of cid fsz dbg w first k] less.prems(1)
    have "w' = w" by simp
    with r0 b show ?thesis by simp
  next
    case False
    with ok(1) have rpos: "0 < ?r" by (cases "?r") auto
    from rpos less.prems(3,4) have bn: "wrap64 (k + 1) = k + 1"
      by (intro wrap64_id) linarith+
    let ?w1 = "(if \<not> dbg then bar_Add w (int (length buf))
                else log_Printf w (LogLine (''Chunk '' @ Itoa (k + 1) @ '': ''
                       @ Itoa (int (pos f1)) @ ''/'' @ Itoa fsz @ '' bytes'')))"
    have w1: "msgs ?w1 = msgs w" by (simp add: note_effect)
    have s1: "script ?w1 = []" using less.prems(5) by (simp add: note_script)
    obtain res w2 where snd: "sendMessageWithRetry ?w1 cid (createUploadMessage (Itoa (k + 1)) buf) 10 = (res, w2)"
      by (cases "sendMessageWithRetry ?w1 cid (createUploadMessage (Itoa (k + 1)) buf) 10") auto
    note fst = send_Inr_first [OF snd s1]
    note step = upload_blocks_step [OF less.prems(2) rf noio False, of cid fsz dbg w first k,
        unfolded bn Let_def snd]
    show ?thesis
    proof (cases res)
      case (Inl e)
      with fst(1) show ?thesis by simp
    next
      case (Inr m)
      note m = send_Inr [OF snd [unfolded Inr]]
      let ?w3 = "(if first then snd (ChannelMessagePin w2 cid (msg_ID m)) else w2)"
      have w3: "msgs ?w3 cid = msgs w cid @ [m]"
        using m(2) w1 by (simp add: pin_effect)
      have att: "Attachments m = [\<lparr>Filename = Itoa (k + 1 + int 0),
             Size = int (length (take ?b (drop (pos f + 0 * ?b) (contents f)))),
             Payload = take ?b (drop (pos f + 0 * ?b) (contents f))\<rparr>]"
        using fst(1) Inr ok(1) by simp
      have s3: "script ?w3 = []" using fst(2) by (simp add: pin_script)
      have len: "length buf = min ?b ?r" using ok(1) by simp
      show ?thesis
      proof (cases "int (length buf) < B")
        case True
        with step Inr less.prems(1) have "w' = ?w3" by simp
        moreover from True len rpos have "?r < ?b" by linarith
        with rpos have "(?r + ?b - 1) div ?b = 1" by (rule ceil_div_short)
        ultimately show ?thesis using w3 att by simp
      next
        case False
        with step Inr less.prems(1)
        have rec: "upload_blocks cid fsz B dbg ?w3 f1 False (k + 1) = (Inr (), w')" by simp
        from False len have ge: "?b \<le> ?r" and lb: "length buf = ?b" by linarith+
        have p1: "pos f1 = pos f + ?b" "contents f1 = contents f" using ok(2,3) lb by simp_all
        have r1: "length (contents f1) - pos f1 = ?r - ?b" using p1 by simp
        have less1: "length (contents f1) - pos f1 < ?r" using r1 b rpos by linarith
        have bound: "k + 1 + int (length (contents f1) - pos f1) < 2 ^ 63"
          using less.prems(4) r1 ge b by linarith
        have k1: "0 \<le> k + 1" using less.prems(3) by simp
        note ih = less.hyps [OF less1 rec less.prems(2) k1 bound s3]
        from ge obtain a where a: "?r = a + ?b" by (metis le_add_diff_inverse2)
        have cnt: "(?r + ?b - 1) div ?b = Suc ((?r - ?b + ?b - 1) div ?b)"
          unfolding a using ceil_div_add [OF b, of a] by simp
        have shift: "\<And>i. pos f1 + i * ?b = pos f + Suc i * ?b" using p1 by simp
        show ?thesis
          unfolding cnt map_upt_Suc_shift
          using ih w3 att
          by (simp add: p1 r1 algebra_simps)
      qed
    qed
  qed
qed

text \<open>A fresh chunked upload in which no remote call fails and that returns without error, of
  a file of \<open>S\<close> bytes read from its start, with the block size \<open>B = maxChunkSize - 50\<close>:
  it appends \<open>\<lceil>S / B\<rceil>\<close> messages, the \<open>i\<close>-th of them (from 0) with one attachment named
  \<open>i + 1\<close> that holds the \<open>i\<close>-th run of \<open>B\<close> bytes of the file, and the payloads in order
  give back the file.\<close>

lemma fresh_chunked_upload_without_failures:
  assumes "uploadChunkedFile w channel f filename fsz maxChunkSize dbg False 0 = (Inr (), w')"
    and "pos f = 0" and "0 \<le> maxChunkSize" and "maxChunkSize < 2 ^ 63"
    and "int (length (contents f)) < 2 ^ 63" and "script w = []"
  shows "(let B = nat (maxChunkSize - 50);
              S = length (contents f);
              n = (S + B - 1) div B;
              new = drop (length (msgs w (ch_ID channel))) (msgs w' (ch_ID channel))
          in 0 < B
           \<and> length new = n
           \<and> map Attachments new =
               map (\<lambda>i. [\<lparr>Filename = Itoa (int i + 1),
                           Size = int (length (take B (drop (i * B) (contents f)))),
                           Payload = take B (drop (i * B) (contents f))\<rparr>]) [0..<n]
           \<and> (\<forall>i<n. length (take B (drop (i * B) (contents f))) =
                       (if Suc i < n then B else if S mod B = 0 then B else S mod B))
           \<and> concat (map (\<lambda>m. concat (map Payload (Attachments m))) new) = contents f)"
proof -
  let ?B = "nat (maxChunkSize - 50)"
  let ?S = "length (contents f)"
  let ?n = "(?S + ?B - 1) div ?B"
  let ?cid = "ch_ID channel"
  let ?new = "drop (length (msgs w ?cid)) (msgs w' ?cid)"
  let ?w1 = "(if \<not> dbg
              then bar_Add (bar_DefaultBytes w fsz (''Uploading '' @ filename))
                     (wrap64 (0 * (maxChunkSize - 50)))
              else w)"
  note loop = uploadChunkedFile_loop [OF assms(3,4), of w channel f filename fsz dbg False 0]
  have big: "50 < maxChunkSize"
  proof (rule ccontr)
    assume "\<not> 50 < maxChunkSize"
    with loop assms(1) show False by simp
  qed
  then have B: "0 < maxChunkSize - 50" "0 < ?B" by simp_all
  from loop assms(1) big
  have run: "upload_blocks ?cid fsz (maxChunkSize - 50) dbg ?w1 f True 0 = (Inr (), w')"
    by simp
  have w1: "msgs ?w1 = msgs w" "script ?w1 = []"
    using assms(6) by (simp_all add: note_effect note_script)
  have bound: "0 + int (length (contents f) - pos f) < 2 ^ 63"
    using assms(2,5) by simp
  from upload_blocks_writes [OF run B(1) order_refl bound w1(2)]
  have att: "map Attachments (msgs w' ?cid) =
       map Attachments (msgs w ?cid) @
       map (\<lambda>i. [\<lparr>Filename = Itoa (int i + 1),
                   Size = int (length (take ?B (drop (i * ?B) (contents f)))),
                   Payload = take ?B (drop (i * ?B) (contents f))\<rparr>]) [0..<?n]"
    unfolding w1(1) using assms(2) by (simp add: add.commute)
  have "map Attachments ?new = drop (length (msgs w ?cid)) (map Attachments (msgs w' ?cid))"
    by (simp add: drop_map)
  then have new: "map Attachments ?new =
       map (\<lambda>i. [\<lparr>Filename = Itoa (int i + 1),
                   Size = int (length (take ?B (drop (i * ?B) (contents f)))),
                   Payload = take ?B (drop (i * ?B) (contents f))\<rparr>]) [0..<?n]"
    unfolding att by simp
  from arg_cong [OF new, of length] have len: "length ?new = ?n" by simp
  have sizes: "\<forall>i<?n. length (take ?B (drop (i * ?B) (contents f))) =
                       (if Suc i < ?n then ?B else if ?S mod ?B = 0 then ?B else ?S mod ?B)"
    using chunk_length [OF B(2), of _ "contents f"] by blast
  have "map (\<lambda>m. concat (map Payload (Attachments m))) ?new
      = map (\<lambda>as. concat (map Payload as)) (map Attachments ?new)"
    by (simp add: comp_def)
  also have "\<dots> = map (\<lambda>i. take ?B (drop (i * ?B) (contents f))) [0..<?n]"
    unfolding new by (simp add: comp_def)
  finally have "concat (map (\<lambda>m. concat (map Payload (Attachments m))) ?new)
      = concat (map (\<lambda>i. take ?B (drop (i * ?B) (contents f))) [0..<?n])"
    by simp
  also have "\<dots> = contents f"
    by (rule concat_chunks) (rule ceil_div_covers [OF B(2)])
  finally have cat: "concat (map (\<lambda>m. concat (map Payload (Attachments m))) ?new) = contents f" .
  from B(2) len new sizes cat show ?thesis
    unfolding Let_def by (intro conjI)
qed

subsection \<open>Concrete runs\<close>

lemma Atoi_1: "Atoi ''1'' = Inr 1"
  by (simp add: Atoi_def digit_val_def)

lemmas run_defs = uploadChunkedFile_def wrap64_def upload_blocks.simps
        ReadFull_def read_bytes_def two_part_file_def remote_world_def sample_channel_def
        verifyChunkSize_def log_Printf_def bar_Add_def bar_DefaultBytes_def send_first_try
        ChannelMessagePin_def api_call_def Let_def Itoa_small

lemma fresh_run_eval:
  "fst fresh_run = Inr ()"
  "map Attachments (msgs (snd fresh_run) 100) =
     [[\<lparr>Filename = ''1'', Size = 100, Payload = replicate 100 1\<rparr>],
      [\<lparr>Filename = ''2'', Size = 51, Payload = replicate 51 2\<rparr>]]"
  "pin_calls (snd fresh_run) = [(100, 200)]"
  by (simp_all add: fresh_run_def run_defs)

lemma debug_run_eval:
  "fst debug_run = Inr ()"
  "stdout (snd debug_run) = []"
  "logs (snd debug_run) = [LogLine ''Chunk 1: 100/151 bytes'', LogLine ''Chunk 2: 151/151 bytes'']"
  "progress (snd debug_run) = []"
  by (simp_all add: debug_run_def run_defs)

lemma resumed_run_inspection:
  "resumed_run = uploadChunkedFile (interrupted_world\<lparr>opened := [''f.bin'']\<rparr>)
      (sample_channel ''151'') (two_part_file 100 51) ''f.bin'' 151 100 False True 1"
  by (simp add: resumed_run_def up_def sample_env_def Split_f FormatInt_151 resume_upload_def
        ChannelMessages_def api_call_def interrupted_world_def remote_world_def block_message_def
        Atoi_1 wrap64_def choose_upload_def sample_channel_def two_part_file_def Let_def)

lemma resumed_run_eval:
  "fst resumed_run = Inr ()"
  "map Attachments (msgs (snd resumed_run) 100) =
     [[\<lparr>Filename = ''1'', Size = 100, Payload = replicate 100 1\<rparr>],
      [\<lparr>Filename = ''2'', Size = 50, Payload = replicate 50 1\<rparr>],
      [\<lparr>Filename = ''3'', Size = 50, Payload = replicate 50 1\<rparr>],
      [\<lparr>Filename = ''4'', Size = 50, Payload = replicate 50 2\<rparr>],
      [\<lparr>Filename = ''5'', Size = 1, Payload = replicate 1 2\<rparr>]]"
  "pin_calls (snd resumed_run) = []"
  unfolding resumed_run_inspection
  by (simp_all add: interrupted_world_def block_message_def run_defs)

lemma tiny_limit_run_eval:
  "fst tiny_limit_run = Inl ChunkTooSmall"
  "msgs (snd tiny_limit_run) 200 = []"
  "chans (snd tiny_limit_run) = [\<lparr>ch_ID = 200, ch_Name = ''f.bin'', Topic = ''51''\<rparr>]"
  by (simp_all add: tiny_limit_run_def up_def sample_env_def Split_f fresh_upload_def
        GuildChannelCreate_def ChannelEdit_def api_call_def remote_world_def two_part_file_def
        choose_upload_def uploadChunkedFile_def wrap64_def FormatInt_def Itoa_def digits.simps
        digit_char_def Let_def)

lemma retried_run_eval:
  "fst retried_run = Inr ()"
  "map Attachments (msgs (snd retried_run) 100) =
     [[\<lparr>Filename = ''1'', Size = 0, Payload = []\<rparr>],
      [\<lparr>Filename = ''2'', Size = 3, Payload = [1, 2, 2]\<rparr>],
      [\<lparr>Filename = ''3'', Size = 1, Payload = [2]\<rparr>]]"
  "sleeps (snd retried_run) = [Second]"
  "pin_calls (snd retried_run) = [(100, 100)]"
  by (simp_all add: retried_run_def fresh_world_def uploadChunkedFile_def wrap64_def
        upload_blocks.simps ReadFull_def read_bytes_def two_part_file_def sample_channel_def
        verifyChunkSize_def bar_Add_def bar_DefaultBytes_def sendMessageWithRetry_def
        sendMessageWithRetry_from.simps ChannelMessageSendComplex_def Sleep_def log_Printf_def
        Second_def ChannelMessagePin_def api_call_def Let_def Itoa_small numeral_eq_Suc)

subsection \<open>Properties of the concrete runs\<close>

text \<open>
  C3. The fresh chunked upload of 7 bytes in blocks of 3 in which the first attempt to send
  block 1 fails. The second attempt sends the same message, whose reader the first attempt
  has read to its end, so block 1 is stored without bytes; the upload goes on and returns
  without error. The container holds the blocks 1, 2, 3 with 0, 3 and 1 bytes, where the
  file has chunks of 3, 3 and 1 bytes, and the payloads in order are 4 bytes, not the file.
\<close>

theorem retried_block_is_stored_empty:
  "fst retried_run = Inr ()
   \<and> contents (two_part_file 4 3) = [1, 1, 1, 1, 2, 2, 2]
   \<and> map (\<lambda>m. map Filename (Attachments m)) (msgs (snd retried_run) 100)
       = [[''1''], [''2''], [''3'']]
   \<and> map (\<lambda>m. map Size (Attachments m)) (msgs (snd retried_run) 100) = [[0], [3], [1]]
   \<and> concat (map (\<lambda>m. concat (map Payload (Attachments m))) (msgs (snd retried_run) 100))
       = [1, 2, 2, 2]
   \<and> concat (map (\<lambda>m. concat (map Payload (Attachments m))) (msgs (snd retried_run) 100))
       \<noteq> contents (two_part_file 4 3)"
proof -
  note a = retried_run_eval(2)
  have f: "contents (two_part_file 4 3) = [1, 1, 1, 1, 2, 2, 2]"
    by (simp add: two_part_file_def numeral_eq_Suc)
  have n: "map (\<lambda>m. map Filename (Attachments m)) (msgs (snd retried_run) 100)
       = [[''1''], [''2''], [''3'']]"
    using arg_cong [OF a, of "map (map Filename)"] by (simp add: comp_def)
  have z: "map (\<lambda>m. map Size (Attachments m)) (msgs (snd retried_run) 100) = [[0], [3], [1]]"
    using arg_cong [OF a, of "map (map Size)"] by (simp add: comp_def)
  have c: "concat (map (\<lambda>m. concat (map Payload (Attachments m))) (msgs (snd retried_run) 100))
       = [1, 2, 2, 2]"
    using arg_cong [OF a, of "\<lambda>xs. concat (map (\<lambda>as. concat (map Payload as)) xs)"]
    by (simp add: comp_def)
  have d: "concat (map (\<lambda>m. concat (map Payload (Attachments m))) (msgs (snd retried_run) 100))
       \<noteq> contents (two_part_file 4 3)"
    unfolding c f by simp
  show ?thesis
    apply (intro conjI)
         apply (rule retried_run_eval(1))
        apply (rule f)
       apply (rule n)
      apply (rule z)
     apply (rule c)
    apply (rule d)
    done
qed

text \<open>
  C6. In debug mode the chunked upload prints nothing on standard output: for each block
  it writes a line \<^verbatim>\<open>Chunk <block>: <offset>/<size> bytes\<close> through \<^verbatim>\<open>log.Printf\<close>, that is
  to standard error. The run uploads 151 bytes in two blocks.
\<close>

theorem debug_mode_logs_chunk_lines:
  "fst debug_run = Inr ()
   \<and> stdout (snd debug_run) = []
   \<and> logs (snd debug_run) =
       [LogLine ''Chunk 1: 100/151 bytes'', LogLine ''Chunk 2: 151/151 bytes'']
   \<and> progress (snd debug_run) = []"
  using debug_run_eval by (intro conjI)

text \<open>
  C2. The resumed run: block 1 of the container has 100 bytes, the resume takes 100 as the
  limit of \<^verbatim>\<open>uploadChunkedFile\<close>, which subtracts its margin of 50 again, so the full blocks
  written after the resume point have 50 bytes.
\<close>

theorem resumed_blocks_are_smaller:
  "fst resumed_run = Inr ()
   \<and> map (map Size \<circ> Attachments) (msgs (snd resumed_run) 100) = [[100], [50], [50], [50], [1]]"
  using resumed_run_eval(1) arg_cong [OF resumed_run_eval(2), of "map (map Size)"]
  by (simp add: comp_def)

text \<open>
  C1. The resumed run again: the inspection finds the block size 100 and the last block 1, and
  the engine numbers the new blocks from 2 on, but the local file is still at offset 0, so
  block 2 holds the first 50 bytes of the file, not the bytes from offset 100 on. The
  container ends with 251 bytes for a file of 151.
\<close>

theorem resumed_upload_reads_from_offset_zero:
  "resumed_run = uploadChunkedFile (interrupted_world\<lparr>opened := [''f.bin'']\<rparr>)
      (sample_channel ''151'') (two_part_file 100 51) ''f.bin'' 151 100 False True 1
   \<and> pos (two_part_file 100 51) = 0
   \<and> fst resumed_run = Inr ()
   \<and> map (map Filename \<circ> Attachments) (msgs (snd resumed_run) 100)
       = [[''1''], [''2''], [''3''], [''4''], [''5'']]
   \<and> map Payload (Attachments (msgs (snd resumed_run) 100 ! 1))
       = [take 50 (contents (two_part_file 100 51))]
   \<and> take 50 (contents (two_part_file 100 51)) = replicate 50 1
   \<and> take 50 (drop (1 * 100) (contents (two_part_file 100 51))) = replicate 50 2
   \<and> length (concat (map (concat \<circ> map Payload \<circ> Attachments) (msgs (snd resumed_run) 100))) = 251
   \<and> length (contents (two_part_file 100 51)) = 151"
proof -
  note a = resumed_run_eval(2)
  have n: "map (map Filename \<circ> Attachments) (msgs (snd resumed_run) 100)
       = [[''1''], [''2''], [''3''], [''4''], [''5'']]"
    using arg_cong [OF a, of "map (map Filename)"] by (simp add: comp_def)
  have l: "length (msgs (snd resumed_run) 100) = 5"
    using arg_cong [OF a, of length] by simp
  have p: "map Payload (Attachments (msgs (snd resumed_run) 100 ! 1))
       = [take 50 (contents (two_part_file 100 51))]"
    using arg_cong [OF a, of "\<lambda>xs. map Payload (xs ! 1)"] l
    by (simp add: two_part_file_def)
  have c: "length (concat (map (concat \<circ> map Payload \<circ> Attachments) (msgs (snd resumed_run) 100)))
       = 251"
    using arg_cong [OF a, of "\<lambda>xs. length (concat (map (concat \<circ> map Payload) xs))"]
    by (simp add: comp_def)
  have f: "pos (two_part_file 100 51) = 0" "take 50 (contents (two_part_file 100 51)) = replicate 50 1"
    "take 50 (drop (1 * 100) (contents (two_part_file 100 51))) = replicate 50 2"
    "length (contents (two_part_file 100 51)) = 151"
    by (simp_all add: two_part_file_def)
  show ?thesis
    apply (intro conjI)
            apply (rule resumed_run_inspection)
           apply (rule f(1))
          apply (rule resumed_run_eval(1))
         apply (rule n)
        apply (rule p)
       apply (rule f(2))
      apply (rule f(3))
     apply (rule c)
    apply (rule f(4))
    done
qed

subsection \<open>The boundary between the two paths\<close>

lemma uploadSingleFile_success:
  assumes "uploadSingleFile w ch f base fsz dbg resume = (Inr (), w')"
  shows "map (\<lambda>m. map Filename (Attachments m)) (msgs w' (ch_ID ch)) =
           map (\<lambda>m. map Filename (Attachments m)) (msgs w (ch_ID ch)) @ [[''1'']]"
proof -
  from ReadAll_cases [of f] show ?thesis
  proof (elim disjE exE)
    fix got f1 assume "ReadAll f = (got, Some ErrIO, f1)"
    with assms show ?thesis by (simp add: uploadSingleFile_def)
  next
    fix f1 assume ra: "ReadAll f = (drop (pos f) (contents f), None, f1)"
    let ?d = "drop (pos f) (contents f)"
    let ?w1 = "(if \<not> dbg then bar_DefaultBytes w fsz (''Uploading '' @ base) else w)"
    have w1: "msgs ?w1 = msgs w" by (simp add: note_effect)
    obtain res w2 where snd: "sendMessageWithRetry ?w1 (ch_ID ch) (createUploadMessage ''1'' ?d) 10 = (res, w2)"
      by (cases "sendMessageWithRetry ?w1 (ch_ID ch) (createUploadMessage ''1'' ?d) 10") auto
    show ?thesis
    proof (cases res)
      case (Inl e)
      with assms ra snd show ?thesis by (simp add: uploadSingleFile_def Let_def)
    next
      case (Inr m)
      note m = send_Inr [OF snd [unfolded Inr]]
      let ?w3 = "(if \<not> resume then snd (ChannelMessagePin w2 (ch_ID ch) (msg_ID m)) else w2)"
      let ?w4 = "(if \<not> dbg then bar_Add ?w3 fsz else ?w3)"
      from assms ra snd Inr have w': "w' = ?w4"
        by (simp add: uploadSingleFile_def Let_def)
      have "msgs ?w4 = msgs w2" by (simp add: note_effect pin_effect)
      with m(1,2) w1 show ?thesis unfolding w' by simp
    qed
  qed
qed

text \<open>
  C9, amended. At the end of \<^verbatim>\<open>up\<close>, for a fresh upload of a file of \<open>S\<close> bytes read from its
  start and an attachment limit \<open>maxSize\<close>: when \<open>S = maxSize\<close> the single-shot path runs, and
  if it returns without error it has stored one message, with one attachment, named \<open>1\<close>;
  when \<open>S = maxSize + 1\<close> the chunked path runs, which for \<open>maxSize \<le> 50\<close> returns the error
  "calculated chunk size is too small" at once, leaving the remote state as it was, and for
  \<open>maxSize > 50\<close>, if it returns without error, has stored at least two messages. This holds
  whichever remote calls fail on the way.
\<close>

theorem single_shot_chunked_boundary:
  assumes "pos f = 0" and "0 \<le> maxSize" and "int (length (contents f)) < 2 ^ 63"
  shows "(let S = int (length (contents f));
              R = choose_upload w ch f base S maxSize dbg False 0;
              new = drop (length (msgs w (ch_ID ch))) (msgs (snd R) (ch_ID ch))
          in (S = maxSize \<longrightarrow>
                R = uploadSingleFile w ch f base S dbg False
              \<and> (fst R = Inr () \<longrightarrow>
                   map (\<lambda>m. map Filename (Attachments m)) new = [[''1'']]))
           \<and> (S = maxSize + 1 \<longrightarrow>
                R = uploadChunkedFile w ch f base S maxSize dbg False 0
              \<and> (maxSize \<le> 50 \<longrightarrow> R = (Inl ChunkTooSmall, w))
              \<and> (50 < maxSize \<longrightarrow> fst R = Inr () \<longrightarrow> 2 \<le> length new)))"
proof -
  let ?S = "int (length (contents f))"
  let ?R = "choose_upload w ch f base ?S maxSize dbg False 0"
  let ?cid = "ch_ID ch"
  let ?new = "drop (length (msgs w ?cid)) (msgs (snd ?R) ?cid)"
  have single: "?R = uploadSingleFile w ch f base ?S dbg False
              \<and> (fst ?R = Inr () \<longrightarrow>
                   map (\<lambda>m. map Filename (Attachments m)) ?new = [[''1'']])"
    if eq: "?S = maxSize"
  proof (intro conjI impI)
    show r: "?R = uploadSingleFile w ch f base ?S dbg False"
      using eq by (simp add: choose_upload_def)
    assume "fst ?R = Inr ()"
    then have "uploadSingleFile w ch f base ?S dbg False = (Inr (), snd ?R)"
      unfolding r [symmetric] by (simp add: prod_eq_iff)
    from uploadSingleFile_success [OF this]
    have att: "map (\<lambda>m. map Filename (Attachments m)) (msgs (snd ?R) ?cid) =
       map (\<lambda>m. map Filename (Attachments m)) (msgs w ?cid) @ [[''1'']]" .
    have "map (\<lambda>m. map Filename (Attachments m)) ?new
        = drop (length (msgs w ?cid)) (map (\<lambda>m. map Filename (Attachments m)) (msgs (snd ?R) ?cid))"
      by (simp add: drop_map)
    then show "map (\<lambda>m. map Filename (Attachments m)) ?new = [[''1'']]"
      unfolding att by simp
  qed
  have chunked: "?R = uploadChunkedFile w ch f base ?S maxSize dbg False 0
              \<and> (maxSize \<le> 50 \<longrightarrow> ?R = (Inl ChunkTooSmall, w))
              \<and> (50 < maxSize \<longrightarrow> fst ?R = Inr () \<longrightarrow> 2 \<le> length ?new)"
    if eq: "?S = maxSize + 1"
  proof (intro conjI impI)
    show r: "?R = uploadChunkedFile w ch f base ?S maxSize dbg False 0"
      using eq by (simp add: choose_upload_def)
    have lt: "maxSize < 2 ^ 63" using eq assms(3) by simp
    note loop = uploadChunkedFile_loop [OF assms(2) lt, of w ch f base ?S dbg False 0]
    show "?R = (Inl ChunkTooSmall, w)" if "maxSize \<le> 50"
      unfolding r using loop that by simp
    assume big: "50 < maxSize" and ok: "fst ?R = Inr ()"
    let ?B = "nat (maxSize - 50)"
    let ?w1 = "(if \<not> dbg
              then bar_Add (bar_DefaultBytes w ?S (''Uploading '' @ base))
                     (wrap64 (0 * (maxSize - 50)))
              else w)"
    from big have B: "0 < maxSize - 50" "0 < ?B" by simp_all
    from ok have "uploadChunkedFile w ch f base ?S maxSize dbg False 0 = (Inr (), snd ?R)"
      unfolding r [symmetric] by (simp add: prod_eq_iff)
    with loop big
    have run: "upload_blocks ?cid ?S (maxSize - 50) dbg ?w1 f True 0 = (Inr (), snd ?R)"
      by simp
    have w1: "msgs ?w1 = msgs w" by (simp add: note_effect)
    have bound: "0 + int (length (contents f) - pos f) < 2 ^ 63"
      using assms(1,3) by simp
    from arg_cong [OF upload_blocks_names [OF run B(1) order_refl bound], of length]
    have "length (msgs (snd ?R) ?cid) =
            length (msgs w ?cid) + (length (contents f) + ?B - 1) div ?B"
      unfolding w1 using assms(1) by simp
    then have len: "length ?new = (length (contents f) + ?B - 1) div ?B" by simp
    have "?B < length (contents f)" using eq big by linarith
    from ceil_div_ge2 [OF B(2) this] show "2 \<le> length ?new" unfolding len .
  qed
  from single chunked show ?thesis unfolding Let_def by blast
qed

text \<open>
  C9 as stated fails for an attachment limit of 50 bytes: the fresh upload of a file of 51
  bytes takes the chunked path, which returns "calculated chunk size is too small" and
  stores no block in the channel it has just created.
\<close>

theorem tiny_limit_no_blocks:
  "int (length (contents (two_part_file 50 1))) = 50 + 1
   \<and> fst tiny_limit_run = Inl ChunkTooSmall
   \<and> chans (snd tiny_limit_run) = [\<lparr>ch_ID = 200, ch_Name = ''f.bin'', Topic = ''51''\<rparr>]
   \<and> \<not> 2 \<le> length (msgs (snd tiny_limit_run) 200)"
proof -
  have a: "int (length (contents (two_part_file 50 1))) = 50 + 1"
    by (simp add: two_part_file_def)
  have b: "\<not> 2 \<le> length (msgs (snd tiny_limit_run) 200)"
    unfolding tiny_limit_run_eval(2) by simp
  show ?thesis
    apply (intro conjI)
       apply (rule a)
      apply (rule tiny_limit_run_eval(1))
     apply (rule tiny_limit_run_eval(3))
    apply (rule b)
    done
qed

lemma single_run_eval:
  "fst single_run = Inr ()"
  by (simp add: single_run_def uploadSingleFile_def ReadAll_def run_defs)

theorem single_shot_chunked_boundary_witness:
  "pos (two_part_file 100 50) = 0
   \<and> int (length (contents (two_part_file 100 50))) = 150
   \<and> fst single_run = Inr ()
   \<and> map (\<lambda>m. map Filename (Attachments m))
         (drop (length (msgs (remote_world []) (ch_ID (sample_channel ''150''))))
               (msgs (snd single_run) (ch_ID (sample_channel ''150'')))) = [[''1'']]
   \<and> int (length (contents (two_part_file 100 51))) = 150 + 1
   \<and> fst fresh_run = Inr ()
   \<and> 2 \<le> length (drop (length (msgs (remote_world []) (ch_ID (sample_channel ''151''))))
                      (msgs (snd fresh_run) (ch_ID (sample_channel ''151''))))
   \<and> int (length (contents (two_part_file 50 1))) = 50 + 1
   \<and> choose_upload (remote_world []) (sample_channel ''51'') (two_part_file 50 1) ''f.bin''
        51 50 False False 0 = (Inl ChunkTooSmall, remote_world [])"
proof -
  have p: "pos (two_part_file 100 50) = 0" "pos (two_part_file 100 51) = 0"
    "pos (two_part_file 50 1) = 0"
    by (simp_all add: two_part_file_def)
  have l1: "int (length (contents (two_part_file 100 50))) = 150"
    by (simp add: two_part_file_def)
  have l2: "int (length (contents (two_part_file 100 51))) = 151"
    by (simp add: two_part_file_def)
  have l3: "int (length (contents (two_part_file 50 1))) = 51"
    by (simp add: two_part_file_def)
  have b: "(150::int) < 2 ^ 63" "(151::int) < 2 ^ 63" "(51::int) < 2 ^ 63" by simp_all
  have n: "(0::int) \<le> 150" "(0::int) \<le> 50" by simp_all
  note t1 = single_shot_chunked_boundary [where f = "two_part_file 100 50" and maxSize = 150
      and w = "remote_world []" and ch = "sample_channel ''150''" and base = "''f.bin''"
      and dbg = False, unfolded l1 Let_def, OF p(1) n(1) b(1)]
  note t2 = single_shot_chunked_boundary [where f = "two_part_file 100 51" and maxSize = 150
      and w = "remote_world []" and ch = "sample_channel ''151''" and base = "''f.bin''"
      and dbg = False, unfolded l2 Let_def, OF p(2) n(1) b(2)]
  note t3 = single_shot_chunked_boundary [where f = "two_part_file 50 1" and maxSize = 50
      and w = "remote_world []" and ch = "sample_channel ''51''" and base = "''f.bin''"
      and dbg = False, unfolded l3 Let_def, OF p(3) n(2) b(3)]
  from t1 have r1: "choose_upload (remote_world []) (sample_channel ''150'')
      (two_part_file 100 50) ''f.bin'' 150 150 False False 0 = single_run"
    unfolding single_run_def by simp
  from t1 single_run_eval
  have c1: "map (\<lambda>m. map Filename (Attachments m))
         (drop (length (msgs (remote_world []) (ch_ID (sample_channel ''150''))))
               (msgs (snd single_run) (ch_ID (sample_channel ''150'')))) = [[''1'']]"
    unfolding r1 by simp
  from t2 have r2: "choose_upload (remote_world []) (sample_channel ''151'')
      (two_part_file 100 51) ''f.bin'' 151 150 False False 0 = fresh_run"
    unfolding fresh_run_def by simp
  from t2 fresh_run_eval(1)
  have c2: "2 \<le> length (drop (length (msgs (remote_world []) (ch_ID (sample_channel ''151''))))
                      (msgs (snd fresh_run) (ch_ID (sample_channel ''151''))))"
    unfolding r2 by simp
  have e: "(51::int) = 50 + 1" "(50::int) \<le> 50" by simp_all
  from t3 e have c3: "choose_upload (remote_world []) (sample_channel ''51'') (two_part_file 50 1)
        ''f.bin'' 51 50 False False 0 = (Inl ChunkTooSmall, remote_world [])"
    by blast
  have l2': "int (length (contents (two_part_file 100 51))) = 150 + 1" using l2 by simp
  have l3': "int (length (contents (two_part_file 50 1))) = 50 + 1" using l3 by simp
  show ?thesis
    apply (intro conjI)
            apply (rule p(1))
           apply (rule l1)
          apply (rule single_run_eval)
         apply (rule c1)
        apply (rule l2')
       apply (rule fresh_run_eval(1))
      apply (rule c2)
     apply (rule l3')
    apply (rule c3)
    done
qed

text \<open>The pin of the fresh chunked run of 151 bytes: one call, on the message of block 1.\<close>

theorem anchor_pinned_once_witness:
  "length (msgs (snd fresh_run) 100) = 2
   \<and> pin_calls (snd fresh_run) = [(100, msg_ID (msgs (snd fresh_run) 100 ! 0))]
   \<and> map Filename (Attachments (msgs (snd fresh_run) 100 ! 0)) = [''1'']"
proof -
  have cid: "ch_ID (sample_channel ''151'') = 100" by (simp add: sample_channel_def)
  have m0: "msgs (remote_world []) 100 = []" "pin_calls (remote_world []) = []"
    by (simp_all add: remote_world_def)
  from arg_cong [OF fresh_run_eval(2), of length]
  have len: "length (msgs (snd fresh_run) 100) = 2" by simp
  note t = anchor_pinned_once [where w = "remote_world []" and ch = "sample_channel ''151''"
      and f = "two_part_file 100 51" and base = "''f.bin''" and fsz = 151 and maxSize = 150
      and dbg = False and k = 0, THEN conjunct2, THEN conjunct2, THEN conjunct2,
      folded fresh_run_def, unfolded Let_def cid m0]
  from t len
  have "pin_calls (snd fresh_run) = [(100, msg_ID (msgs (snd fresh_run) 100 ! 0))]
   \<and> map Filename (Attachments (msgs (snd fresh_run) 100 ! 0)) = [''1'']"
    by simp
  with len show ?thesis by (intro conjI) simp_all
qed

end
